theory Spec2Isabelle
  imports Main "HOL-Library.List_Lexorder" "HOL-Library.Char_ord"
begin

section \<open>JavaScript values\<close>

text \<open>
  The cached payloads and the results of fetchers are arbitrary JavaScript values.
  Numbers are the integers (milliseconds, counters, priorities); objects and the
  built-in \<open>Map\<close> keep their entries in insertion order, so both are association
  lists whose keys are distinct.
\<close>

datatype jsval =
    JUndefined
  | JNull
  | JBool bool
  | JNum int
  | JStr string
  | JArr "jsval list"
  | JObj "(string \<times> jsval) list"

text \<open>\<open>Map.prototype.set\<close> (and a property write on an object): an existing key keeps
  its place and gets the new value, a new key goes to the end.\<close>

fun Map_set :: "'k \<Rightarrow> 'v \<Rightarrow> ('k \<times> 'v) list \<Rightarrow> ('k \<times> 'v) list" where
  "Map_set k v [] = [(k, v)]"
| "Map_set k v (p # ps) = (if fst p = k then (k, v) # ps else p # Map_set k v ps)"

text \<open>\<open>Map.prototype.delete\<close>; \<open>Map.prototype.get\<close> is \<^const>\<open>map_of\<close>.\<close>

definition Map_delete :: "'k \<Rightarrow> ('k \<times> 'v) list \<Rightarrow> ('k \<times> 'v) list" where
  "Map_delete k ps = filter (\<lambda>p. fst p \<noteq> k) ps"

text \<open>\<open>String.prototype.startsWith\<close>.\<close>

definition startsWith :: "string \<Rightarrow> string \<Rightarrow> bool" where
  "startsWith s p = (take (length p) s = p)"

text \<open>JavaScript truthiness, as \<open>||\<close>, \<open>!\<close> and \<open>if\<close> test it.\<close>

fun truthy :: "jsval \<Rightarrow> bool" where
  "truthy JUndefined = False"
| "truthy JNull = False"
| "truthy (JBool b) = b"
| "truthy (JNum n) = (n \<noteq> 0)"
| "truthy (JStr s) = (s \<noteq> [])"
| "truthy (JArr xs) = True"
| "truthy (JObj ps) = True"

text \<open>\<open>a || b\<close> on values, and on numbers that may be missing (\<open>None\<close> is
  \<open>null\<close> or \<open>undefined\<close>).\<close>

definition js_or :: "jsval \<Rightarrow> jsval \<Rightarrow> jsval" where
  "js_or a b = (if truthy a then a else b)"

fun num_or :: "int option \<Rightarrow> int option \<Rightarrow> int option" where
  "num_or (Some n) b = (if n \<noteq> 0 then Some n else b)"
| "num_or None b = b"

section \<open>Cache service: CacheEntry\<close>

record CacheEntry =
  data :: jsval
  ttl :: int
  timestamp :: int
  key :: string
  accessCount :: int
  lastAccessTime :: int

text \<open>The constructor \<open>CacheEntry(data, ttl = 300000, key)\<close>; \<open>now\<close> is what
  \<open>Date.now()\<close> returns. The default of \<open>ttl\<close> applies to \<open>undefined\<close> only.\<close>

definition newCacheEntry :: "int \<Rightarrow> jsval \<Rightarrow> int option \<Rightarrow> string \<Rightarrow> CacheEntry" where
  "newCacheEntry now v t k =
     \<lparr>data = v, ttl = (case t of None \<Rightarrow> 300000 | Some n \<Rightarrow> n), timestamp = now,
      key = k, accessCount = 0, lastAccessTime = now\<rparr>"

definition isValid :: "int \<Rightarrow> CacheEntry \<Rightarrow> bool" where
  "isValid now e = (let age = now - timestamp e in age < ttl e)"


definition recordAccess :: "int \<Rightarrow> CacheEntry \<Rightarrow> CacheEntry" where
  "recordAccess now e = e\<lparr>accessCount := accessCount e + 1, lastAccessTime := now\<rparr>"

section \<open>Cache service: CacheManager\<close>

record Stats =
  hits :: nat
  misses :: nat
  invalidations :: nat
  writes :: nat

text \<open>
  The manager's \<open>store\<close> is a \<open>Map\<close> from the namespaced key to its entry. The
  invalidation listeners are callbacks of the callers; no listener is registered in
  this model, so \<open>_notifyInvalidation\<close> does nothing. \<open>defaultTTLs\<close> is read at own
  properties only: a namespace that names a member of \<open>Object.prototype\<close>
  (\<open>constructor\<close>, \<open>toString\<close>, ...) is outside the model, since for it the code reads
  the inherited member where the model finds no default.
\<close>

record CacheManager =
  store :: "(string \<times> CacheEntry) list"
  stats :: Stats
  defaultTTLs :: "string \<rightharpoonup> int"

definition newCacheManager :: CacheManager where
  "newCacheManager =
     \<lparr>store = [],
      stats = \<lparr>hits = 0, misses = 0, invalidations = 0, writes = 0\<rparr>,
      defaultTTLs = [''profile'' \<mapsto> 5 * 60 * 1000, ''stats'' \<mapsto> 3 * 60 * 1000,
                     ''lessons'' \<mapsto> 5 * 60 * 1000, ''streak'' \<mapsto> 3 * 60 * 1000,
                     ''progress'' \<mapsto> 3 * 60 * 1000, ''default'' \<mapsto> 10 * 60 * 1000]\<rparr>"

definition buildKey :: "string \<Rightarrow> string \<Rightarrow> string" where
  "buildKey k ns = ns @ '':'' @ k"

definition get :: "int \<Rightarrow> string \<Rightarrow> string \<Rightarrow> CacheManager \<Rightarrow> jsval \<times> CacheManager" where
  "get now k ns cm =
     (let cacheKey = buildKey k ns in
      case map_of (store cm) cacheKey of
        None \<Rightarrow> (JNull, cm\<lparr>stats := (stats cm)\<lparr>misses := misses (stats cm) + 1\<rparr>\<rparr>)
      | Some entry \<Rightarrow>
          if \<not> isValid now entry
          then (JNull, cm\<lparr>store := Map_delete cacheKey (store cm),
                           stats := (stats cm)\<lparr>invalidations := invalidations (stats cm) + 1\<rparr>\<rparr>)
          else (data entry,
                cm\<lparr>store := Map_set cacheKey (recordAccess now entry) (store cm),
                   stats := (stats cm)\<lparr>hits := hits (stats cm) + 1\<rparr>\<rparr>))"

definition set_cache ::
  "int \<Rightarrow> string \<Rightarrow> jsval \<Rightarrow> string \<Rightarrow> int option \<Rightarrow> CacheManager \<Rightarrow> CacheManager" where
  "set_cache now k v ns t cm =
     (let cacheKey = buildKey k ns;
          finalTTL = num_or (num_or t (defaultTTLs cm ns)) (defaultTTLs cm ''default'');
          entry = newCacheEntry now v finalTTL cacheKey
      in cm\<lparr>store := Map_set cacheKey entry (store cm),
            stats := (stats cm)\<lparr>writes := writes (stats cm) + 1\<rparr>\<rparr>)"

definition has :: "int \<Rightarrow> string \<Rightarrow> string \<Rightarrow> CacheManager \<Rightarrow> bool \<times> CacheManager" where
  "has now k ns cm =
     (let cacheKey = buildKey k ns in
      case map_of (store cm) cacheKey of
        None \<Rightarrow> (False, cm)
      | Some entry \<Rightarrow>
          if \<not> isValid now entry
          then (False, cm\<lparr>store := Map_delete cacheKey (store cm)\<rparr>)
          else (True, cm))"

definition delete :: "string \<Rightarrow> string \<Rightarrow> CacheManager \<Rightarrow> bool \<times> CacheManager" where
  "delete k ns cm =
     (let cacheKey = buildKey k ns;
          deleted = (map_of (store cm) cacheKey \<noteq> None)
      in if deleted
         then (True, cm\<lparr>store := Map_delete cacheKey (store cm),
                          stats := (stats cm)\<lparr>invalidations := invalidations (stats cm) + 1\<rparr>\<rparr>)
         else (False, cm))"

text \<open>\<open>clear(namespace = null)\<close>: the test \<open>if (namespace)\<close> sends the empty string
  to the branch that clears everything. The loop deletes while it iterates; a \<open>Map\<close>
  iterator still visits every remaining key.\<close>

definition clear :: "string option \<Rightarrow> CacheManager \<Rightarrow> CacheManager" where
  "clear nsopt cm =
     (case nsopt of
        None \<Rightarrow> cm\<lparr>store := []\<rparr>
      | Some ns \<Rightarrow>
          if ns \<noteq> []
          then cm\<lparr>store := fold (\<lambda>k st. if startsWith k (ns @ '':'') then Map_delete k st else st)
                                  (map fst (store cm)) (store cm)\<rparr>
          else cm\<lparr>store := []\<rparr>)"

definition invalidate :: "string \<Rightarrow> string \<Rightarrow> CacheManager \<Rightarrow> CacheManager" where
  "invalidate k ns cm = snd (delete k ns cm)"

definition setNamespaceTTL :: "string \<Rightarrow> int \<Rightarrow> CacheManager \<Rightarrow> CacheManager" where
  "setNamespaceTTL ns t cm = cm\<lparr>defaultTTLs := (defaultTTLs cm)(ns \<mapsto> t)\<rparr>"

text \<open>\<open>getSizeStats().entryCount\<close> counts the entries of the store.\<close>

definition entryCount :: "CacheManager \<Rightarrow> nat" where
  "entryCount cm = length (store cm)"

text \<open>
  \<open>new RegExp(pattern)\<close> is the platform's: it is a parameter \<open>RegExp\<close> of the model,
  giving \<open>None\<close> where the constructor throws a \<open>SyntaxError\<close> and otherwise the
  predicate \<open>regex.test\<close> (the regex has no flags, so \<open>test\<close> keeps no state).
\<close>

datatype error = SyntaxError | TypeError | Thrown jsval

definition invalidatePattern ::
  "(string \<Rightarrow> (string \<Rightarrow> bool) option) \<Rightarrow> string \<Rightarrow> string \<Rightarrow> CacheManager
     \<Rightarrow> error + nat \<times> CacheManager" where
  "invalidatePattern RegExp pattern ns cm =
     (case RegExp pattern of
        None \<Rightarrow> Inl SyntaxError
      | Some test \<Rightarrow>
          (let (st, count) =
                 fold (\<lambda>k (st, count).
                         if startsWith k (ns @ '':'') \<and> test k
                         then (Map_delete k st, count + 1) else (st, count))
                      (map fst (store cm)) (store cm, 0)
           in Inr (count, cm\<lparr>store := st\<rparr>)))"

text \<open>
  The entries of \<open>export()\<close>, which are also what \<open>import(data)\<close> reads. The object
  \<open>exported\<close> is an association list in insertion order (its property names are
  namespaced keys, not array indices). \<open>import\<close> reads \<open>ttl\<close>, \<open>age\<close> and
  \<open>accessCount\<close> from data that may lack them: \<open>None\<close> is \<open>undefined\<close>.
\<close>

record ExportedEntry =
  exp_data :: jsval
  exp_ttl :: "int option"
  exp_age :: "int option"
  exp_isValid :: bool
  exp_timeToLive :: int
  exp_accessCount :: "int option"

text \<open>\<open>n || 0\<close>.\<close>

fun or_zero :: "int option \<Rightarrow> int" where
  "or_zero (Some n) = (if n \<noteq> 0 then n else 0)"
| "or_zero None = 0"


definition import_cache ::
  "int \<Rightarrow> (string \<times> ExportedEntry) list \<Rightarrow> CacheManager \<Rightarrow> CacheManager" where
  "import_cache now dat cm =
     cm\<lparr>store :=
          fold (\<lambda>(k, v) st.
                  Map_set k ((newCacheEntry now (exp_data v) (exp_ttl v) k)
                               \<lparr>timestamp := now - or_zero (exp_age v),
                                accessCount := or_zero (exp_accessCount v)\<rparr>) st)
               dat []\<rparr>"

section \<open>A regular-expression engine for simple patterns\<close>

text \<open>
  To run \<open>invalidatePattern\<close> on concrete patterns, \<open>RegExp_simple\<close> implements the
  fragment of the JavaScript pattern syntax that the callers of this repository use:
  literal characters, \<open>.\<close> (any character but a line terminator), a postfix \<open>*\<close>, a
  leading \<open>^\<close> and a trailing \<open>$\<close>. On this fragment it agrees with the built-in
  \<open>RegExp\<close>; every other pattern is outside the fragment and gives \<open>None\<close>.
\<close>

datatype atom = AnyChar | Lit char

fun atom_ok :: "atom \<Rightarrow> char \<Rightarrow> bool" where
  "atom_ok AnyChar c = (c \<noteq> CHR 0x0A \<and> c \<noteq> CHR 0x0D)"
| "atom_ok (Lit a) c = (a = c)"

fun parse_items :: "string \<Rightarrow> (atom \<times> bool) list option" where
  "parse_items [] = Some []"
| "parse_items (c # cs) =
     (if c \<in> set ''*^$+?()[]{}|'' \<or> c = CHR 0x5C then None
      else (let a = (if c = CHR ''.'' then AnyChar else Lit c) in
            case cs of
              [] \<Rightarrow> Some [(a, False)]
            | d # ds \<Rightarrow>
                if d = CHR ''*'' then map_option ((#) (a, True)) (parse_items ds)
                else map_option ((#) (a, False)) (parse_items cs)))"

text \<open>\<open>match_items items atEnd t\<close>: the items match a prefix of \<open>t\<close> (all of \<open>t\<close>
  when the pattern ends in \<open>$\<close>).\<close>

fun match_items :: "(atom \<times> bool) list \<Rightarrow> bool \<Rightarrow> string \<Rightarrow> bool" where
  "match_items [] atEnd t = (if atEnd then t = [] else True)"
| "match_items ((a, False) # items) atEnd [] = False"
| "match_items ((a, False) # items) atEnd (c # cs) = (atom_ok a c \<and> match_items items atEnd cs)"
| "match_items ((a, True) # items) atEnd [] = match_items items atEnd []"
| "match_items ((a, True) # items) atEnd (c # cs) =
     (match_items items atEnd (c # cs) \<or> (atom_ok a c \<and> match_items ((a, True) # items) atEnd cs))"

fun search :: "(atom \<times> bool) list \<Rightarrow> bool \<Rightarrow> string \<Rightarrow> bool" where
  "search items atEnd [] = match_items items atEnd []"
| "search items atEnd (c # cs) = (match_items items atEnd (c # cs) \<or> search items atEnd cs)"

definition RegExp_simple :: "string \<Rightarrow> (string \<Rightarrow> bool) option" where
  "RegExp_simple pattern =
     (let atStart = (pattern \<noteq> [] \<and> hd pattern = CHR ''^'');
          p1 = (if atStart then tl pattern else pattern);
          atEnd = (p1 \<noteq> [] \<and> last p1 = CHR ''$'');
          p2 = (if atEnd then butlast p1 else p1)
      in map_option (\<lambda>items t. if atStart then match_items items atEnd t
                                 else search items atEnd t)
                    (parse_items p2))"

text \<open>\<open>new RegExp(pattern).test(s)\<close> where the pattern compiles.\<close>

definition regex_test :: "(string \<Rightarrow> (string \<Rightarrow> bool) option) \<Rightarrow> string \<Rightarrow> string \<Rightarrow> bool" where
  "regex_test RegExp pattern s = (case RegExp pattern of None \<Rightarrow> False | Some test \<Rightarrow> test s)"

section \<open>Cached API service\<close>

text \<open>
  A fetcher is an asynchronous function of the caller: awaiting it gives a value
  (\<open>Inr\<close>) or throws (\<open>Inl\<close>), and while it runs it may use the shared cache.
\<close>

type_synonym fetcher = "CacheManager \<Rightarrow> (error + jsval) \<times> CacheManager"

text \<open>
  The \<open>options\<close> object of a call. For \<open>strategy\<close>, \<open>None\<close> is a property that is
  absent or \<open>undefined\<close>. For \<open>cacheKey\<close> the two differ in the endpoint methods:
  \<open>None\<close> is an absent property, \<open>Some None\<close> an own property whose value is
  \<open>undefined\<close>, and \<open>Some (Some k)\<close> the key \<open>k\<close>.
\<close>

record Options =
  strategy :: "string option"
  cacheKey :: "string option option"
  skipCache :: bool

definition CACHE_CONFIG :: "string \<rightharpoonup> int \<times> string" where
  "CACHE_CONFIG =
     [''/lessons'' \<mapsto> (5 * 60 * 1000, ''lessons''),
      ''/progress'' \<mapsto> (3 * 60 * 1000, ''progress''),
      ''/streak'' \<mapsto> (3 * 60 * 1000, ''streak''),
      ''/health'' \<mapsto> (1 * 60 * 1000, ''health'')]"


definition getCacheConfig :: "(string \<rightharpoonup> int \<times> string) \<Rightarrow> string \<Rightarrow> int \<times> string" where
  "getCacheConfig cacheConfig endpoint =
     (case cacheConfig endpoint of Some c \<Rightarrow> c | None \<Rightarrow> (10 * 60 * 1000, ''default''))"

text \<open>\<open>result?.name\<close> for the names \<open>success\<close>, \<open>error\<close> and \<open>data\<close>, which only an
  object can have.\<close>

fun get_prop :: "jsval \<Rightarrow> string \<Rightarrow> jsval" where
  "get_prop (JObj ps) name = (case map_of ps name of Some v \<Rightarrow> v | None \<Rightarrow> JUndefined)"
| "get_prop v name = JUndefined"

text \<open>Decimal digits of a number, for array indices and for \<open>String(n)\<close>.\<close>

fun decimal :: "nat \<Rightarrow> string" where
  "decimal n = (if n < 10 then [char_of (48 + n)] else decimal (n div 10) @ [char_of (48 + n mod 10)])"

definition toString :: "int \<Rightarrow> string" where
  "toString i = (if i < 0 then CHR ''-'' # decimal (nat (- i)) else decimal (nat i))"

text \<open>The own enumerable properties that an object spread \<open>{...v}\<close> copies.\<close>

fun own_props :: "jsval \<Rightarrow> (string \<times> jsval) list" where
  "own_props (JObj ps) = ps"
| "own_props (JArr xs) = zip (map decimal [0..<length xs]) xs"
| "own_props (JStr cs) = zip (map decimal [0..<length cs]) (map (\<lambda>c. JStr [c]) cs)"
| "own_props v = []"

text \<open>\<open>{ ...cached, _source: tag }\<close>.\<close>

definition spread_source :: "jsval \<Rightarrow> string \<Rightarrow> jsval" where
  "spread_source cached tag = JObj (Map_set ''_source'' (JStr tag) (own_props cached))"

text \<open>
  The \<open>try\<close> block of \<open>cachedCall\<close> with its \<open>catch\<close>. The result is what the call
  returns or throws, how often it invoked the fetcher, and the cache afterwards;
  \<open>now\<close> is the time when the awaited fetcher has settled.
\<close>

definition cachedCall_fetch ::
  "int \<Rightarrow> string \<Rightarrow> string \<Rightarrow> int \<times> string \<Rightarrow> fetcher \<Rightarrow> CacheManager
     \<Rightarrow> (error + jsval) \<times> nat \<times> CacheManager" where
  "cachedCall_fetch now strat ck config fetcher cm =
     (case fetcher cm of
        (Inr result, cm1) \<Rightarrow>
          if truthy (get_prop result ''success'') \<or> \<not> truthy (get_prop result ''error'')
          then (let dataToCache = js_or (get_prop result ''data'') result
                in (Inr result, 1, set_cache now ck dataToCache (snd config) (Some (fst config)) cm1))
          else (Inr result, 1, cm1)
      | (Inl err, cm1) \<Rightarrow>
          if strat = ''network-first''
          then (case get now ck (snd config) cm1 of
                  (cached, cm2) \<Rightarrow>
                    if cached \<noteq> JNull
                    then (Inr (spread_source cached ''cache-fallback''), 1, cm2)
                    else (Inl err, 1, cm2))
          else (Inl err, 1, cm1))"

text \<open>The destructuring default \<open>cacheKey = endpoint\<close>: it applies when the property is
  absent and when its value is \<open>undefined\<close>.\<close>

definition cacheKeyOf :: "string \<Rightarrow> Options \<Rightarrow> string" where
  "cacheKeyOf endpoint opts = (case cacheKey opts of Some (Some k) \<Rightarrow> k | _ \<Rightarrow> endpoint)"

text \<open>\<open>cachedCall(endpoint, fetcher, options)\<close>; \<open>t1\<close> is the time of the call and
  \<open>t2\<close> the time when the fetcher has settled.\<close>

definition cachedCall ::
  "int \<Rightarrow> int \<Rightarrow> (string \<rightharpoonup> int \<times> string) \<Rightarrow> string \<Rightarrow> fetcher \<Rightarrow> Options \<Rightarrow> CacheManager
     \<Rightarrow> (error + jsval) \<times> nat \<times> CacheManager" where
  "cachedCall t1 t2 cacheConfig endpoint fetcher opts cm =
     (let strat = (case strategy opts of None \<Rightarrow> ''cache-first'' | Some s \<Rightarrow> s);
          ck = cacheKeyOf endpoint opts
      in if skipCache opts
         then (case fetcher cm of (r, cm1) \<Rightarrow> (r, 1, cm1))
         else (let config = getCacheConfig cacheConfig endpoint
               in if strat = ''cache-first''
                  then (case get t1 ck (snd config) cm of
                          (cached, cm1) \<Rightarrow>
                            if cached \<noteq> JNull
                            then (Inr (spread_source cached ''cache''), 0, cm1)
                            else cachedCall_fetch t2 strat ck config fetcher cm1)
                  else cachedCall_fetch t2 strat ck config fetcher cm))"


definition defaultOptions :: Options where
  "defaultOptions = \<lparr>strategy = None, cacheKey = None, skipCache = False\<rparr>"











text \<open>Two fetchers that leave the cache alone: one resolves to a value, one throws.\<close>

definition resolving :: "jsval \<Rightarrow> fetcher" where
  "resolving v cm = (Inr v, cm)"

definition throwing :: "error \<Rightarrow> fetcher" where
  "throwing err cm = (Inl err, cm)"

section \<open>Cache warming service\<close>

record WarmingTask =
  priority :: int
  timeout :: int

text \<open>\<open>WARMING_TASKS\<close> is an object keyed by task name; a task's fetcher does not
  bear on the order of the run and is left out.\<close>

definition WARMING_TASKS :: "(string \<times> WarmingTask) list" where
  "WARMING_TASKS =
     [(''getUserProgress'', \<lparr>priority = 1, timeout = 5000\<rparr>),
      (''getLessons'', \<lparr>priority = 2, timeout = 8000\<rparr>),
      (''getUserStreak'', \<lparr>priority = 3, timeout = 5000\<rparr>)]"

text \<open>\<open>registerTask(name, fetcher, priority = LOW, timeout = 10000)\<close>.\<close>

definition registerTask ::
  "string \<Rightarrow> int option \<Rightarrow> int option \<Rightarrow> (string \<times> WarmingTask) list \<Rightarrow> (string \<times> WarmingTask) list" where
  "registerTask name p t tasks =
     Map_set name \<lparr>priority = (case p of None \<Rightarrow> 4 | Some n \<Rightarrow> n),
                    timeout = (case t of None \<Rightarrow> 10000 | Some n \<Rightarrow> n)\<rparr> tasks"

text \<open>The selection: \<open>filter\<close> by the threshold, then a stable sort by numeric
  priority (\<open>(a, b) => a[1].priority - b[1].priority\<close>).\<close>

definition tasksToRun :: "int \<Rightarrow> (string \<times> WarmingTask) list \<Rightarrow> (string \<times> WarmingTask) list" where
  "tasksToRun priorityThreshold tasks =
     sort_key (\<lambda>(name, task). priority task)
       (filter (\<lambda>(name, task). priority task \<le> priorityThreshold) tasks)"

text \<open>The \<open>Map\<close> from priority to the tasks of that priority.\<close>

definition priorityGroups :: "(string \<times> WarmingTask) list \<Rightarrow> (int \<times> string list) list" where
  "priorityGroups ts =
     fold (\<lambda>(name, task) groups.
             Map_set (priority task)
               ((case map_of groups (priority task) of None \<Rightarrow> [] | Some g \<Rightarrow> g) @ [name]) groups)
          ts []"

text \<open>\<open>Array.from(priorityGroups.keys()).sort()\<close>: without a comparator, \<open>sort\<close>
  orders the elements by their string conversions, compared code unit by code unit.\<close>

definition sortedPriorities :: "(int \<times> string list) list \<Rightarrow> int list" where
  "sortedPriorities groups = sort_key toString (map fst groups)"

text \<open>
  \<open>warmCache(priorityThreshold)\<close>: \<open>None\<close> is the result \<open>false\<close> of the two guards.
  Otherwise the run goes through the tiers in the order of \<open>sortedPriorities\<close>; it
  starts all tasks of a tier together and awaits \<open>Promise.allSettled\<close> of them before
  the next tier. The result lists the tiers in the order in which they ran.
\<close>

definition warmCache ::
  "bool \<Rightarrow> bool \<Rightarrow> int \<Rightarrow> (string \<times> WarmingTask) list \<Rightarrow> (int \<times> string list) list option" where
  "warmCache isWarming currentUser priorityThreshold tasks =
     (if isWarming then None
      else if \<not> currentUser then None
      else (let groups = priorityGroups (tasksToRun priorityThreshold tasks)
            in Some (map (\<lambda>p. (p, case map_of groups p of None \<Rightarrow> [] | Some g \<Rightarrow> g))
                         (sortedPriorities groups))))"

section \<open>Properties of the cache store\<close>

lemma map_of_Map_set: "map_of (Map_set k v ps) k' = (if k' = k then Some v else map_of ps k')"
  by (induction ps) auto

lemma map_of_Map_delete: "map_of (Map_delete k ps) k' = (if k' = k then None else map_of ps k')"
  by (induction ps) (auto simp: Map_delete_def)

lemma length_Map_delete_less:
  "map_of ps k = Some v \<Longrightarrow> length (Map_delete k ps) < length ps"
proof (induction ps)
  case Nil
  then show ?case by simp
next
  case (Cons p ps)
  show ?case
  proof (cases "fst p = k")
    case True
    then show ?thesis by (simp add: Map_delete_def less_Suc_eq_le)
  next
    case False
    with Cons show ?thesis by (auto simp: Map_delete_def)
  qed
qed

lemma get_hit:
  "map_of (store cm) (buildKey k ns) = Some e \<Longrightarrow> now - timestamp e < ttl e \<Longrightarrow>
   get now k ns cm =
     (data e, cm\<lparr>store := Map_set (buildKey k ns) (recordAccess now e) (store cm),
                  stats := (stats cm)\<lparr>hits := hits (stats cm) + 1\<rparr>\<rparr>)"
  by (simp add: get_def isValid_def)

lemma get_expired:
  "map_of (store cm) (buildKey k ns) = Some e \<Longrightarrow> \<not> now - timestamp e < ttl e \<Longrightarrow>
   get now k ns cm =
     (JNull, cm\<lparr>store := Map_delete (buildKey k ns) (store cm),
                 stats := (stats cm)\<lparr>invalidations := invalidations (stats cm) + 1\<rparr>\<rparr>)"
  by (simp add: get_def isValid_def)

lemma get_miss:
  "map_of (store cm) (buildKey k ns) = None \<Longrightarrow>
   get now k ns cm = (JNull, cm\<lparr>stats := (stats cm)\<lparr>misses := misses (stats cm) + 1\<rparr>\<rparr>)"
  by (simp add: get_def)

subsection \<open>TTL correctness of get\<close>

lemma length_Map_set:
  "length (Map_set k v ps) = (if k \<in> fst ` set ps then length ps else Suc (length ps))"
  by (induction ps) auto

text \<open>
  C5 (as stated, it fails). \<open>get\<close> returns \<open>null\<close> for an expired entry, and \<open>null\<close> can be
  the stored value. After \<open>set("k", null, "default", 100)\<close> at time 0, the entry is
  expired at time 150 (\<open>150 - 0 < 100\<close> is false), and \<open>get\<close> at time 150 returns
  \<open>null\<close>, which is the stored value.
\<close>

theorem get_expired_null_counterexample:
  "map_of (store (set_cache 0 ''k'' JNull ''default'' (Some 100) newCacheManager))
      (buildKey ''k'' ''default'')
     = Some \<lparr>data = JNull, ttl = 100, timestamp = 0, key = ''default:k'',
              accessCount = 0, lastAccessTime = 0\<rparr>
   \<and> \<not> (150 - 0 < (100::int))
   \<and> fst (get 150 ''k'' ''default''
          (set_cache 0 ''k'' JNull ''default'' (Some 100) newCacheManager)) = JNull"
  by (simp add: get_def set_cache_def Let_def newCacheManager_def newCacheEntry_def
      buildKey_def isValid_def)

text \<open>
  C5 (amended). For an entry \<open>e\<close> stored under \<open>(namespace, key)\<close> whose value is not
  \<open>null\<close>, \<open>get\<close> returns the stored value iff \<open>now - timestamp e < ttl e\<close>. For every
  stored entry that is valid, \<open>get\<close> returns the stored value, adds one to the hit
  counter and records the access (access count plus one, last access time \<open>now\<close>). When
  the entry is expired, \<open>get\<close> returns \<open>null\<close>, deletes the entry (the entry count goes
  down) and adds one to the invalidation counter. When there is no entry, it returns
  \<open>null\<close> and adds one to the miss counter. \<open>get\<close> is a total function: no case throws.
\<close>

theorem get_ttl_correct_nonnull:
  "(map_of (store cm) (buildKey k ns) = Some e \<longrightarrow>
      (data e \<noteq> JNull \<longrightarrow> (fst (get now k ns cm) = data e) = (now - timestamp e < ttl e))
      \<and> (now - timestamp e < ttl e \<longrightarrow>
           get now k ns cm =
             (data e,
              cm\<lparr>store := Map_set (buildKey k ns)
                               (e\<lparr>accessCount := accessCount e + 1, lastAccessTime := now\<rparr>) (store cm),
                 stats := (stats cm)\<lparr>hits := hits (stats cm) + 1\<rparr>\<rparr>)
           \<and> map_of (store (snd (get now k ns cm))) (buildKey k ns)
               = Some (e\<lparr>accessCount := accessCount e + 1, lastAccessTime := now\<rparr>)
           \<and> entryCount (snd (get now k ns cm)) = entryCount cm)
      \<and> (\<not> now - timestamp e < ttl e \<longrightarrow>
           get now k ns cm =
             (JNull,
              cm\<lparr>store := Map_delete (buildKey k ns) (store cm),
                 stats := (stats cm)\<lparr>invalidations := invalidations (stats cm) + 1\<rparr>\<rparr>)
           \<and> map_of (store (snd (get now k ns cm))) (buildKey k ns) = None
           \<and> entryCount (snd (get now k ns cm)) < entryCount cm))
   \<and> (map_of (store cm) (buildKey k ns) = None \<longrightarrow>
        get now k ns cm = (JNull, cm\<lparr>stats := (stats cm)\<lparr>misses := misses (stats cm) + 1\<rparr>\<rparr>))"
proof (intro conjI impI)
  assume "map_of (store cm) (buildKey k ns) = None"
  then show "get now k ns cm = (JNull, cm\<lparr>stats := (stats cm)\<lparr>misses := misses (stats cm) + 1\<rparr>\<rparr>)"
    by (rule get_miss)
next
  assume e: "map_of (store cm) (buildKey k ns) = Some e"
  {
    assume n: "data e \<noteq> JNull"
    show "(fst (get now k ns cm) = data e) = (now - timestamp e < ttl e)"
    proof (cases "now - timestamp e < ttl e")
      case True
      with get_hit [OF e] show ?thesis by simp
    next
      case False
      with get_expired [OF e] n show ?thesis by auto
    qed
  }
  {
    assume v: "now - timestamp e < ttl e"
    show h: "get now k ns cm =
             (data e,
              cm\<lparr>store := Map_set (buildKey k ns)
                               (e\<lparr>accessCount := accessCount e + 1, lastAccessTime := now\<rparr>) (store cm),
                 stats := (stats cm)\<lparr>hits := hits (stats cm) + 1\<rparr>\<rparr>)"
      using get_hit [OF e v] by (simp add: recordAccess_def)
    show "map_of (store (snd (get now k ns cm))) (buildKey k ns)
               = Some (e\<lparr>accessCount := accessCount e + 1, lastAccessTime := now\<rparr>)"
      by (simp add: h map_of_Map_set)
    have "buildKey k ns \<in> fst ` set (store cm)"
      using e by (metis map_of_eq_None_iff option.distinct(1))
    then show "entryCount (snd (get now k ns cm)) = entryCount cm"
      by (simp add: h entryCount_def length_Map_set)
  }
  assume x: "\<not> now - timestamp e < ttl e"
  show "get now k ns cm =
             (JNull,
              cm\<lparr>store := Map_delete (buildKey k ns) (store cm),
                 stats := (stats cm)\<lparr>invalidations := invalidations (stats cm) + 1\<rparr>\<rparr>)"
    by (rule get_expired [OF e x])
  show "map_of (store (snd (get now k ns cm))) (buildKey k ns) = None"
    by (simp add: get_expired [OF e x] map_of_Map_delete)
  show "entryCount (snd (get now k ns cm)) < entryCount cm"
    using length_Map_delete_less [OF e] by (simp add: get_expired [OF e x] entryCount_def)
qed

text \<open>The end-to-end scenario: \<open>set("streak", 5, "streak", 100)\<close> at time 0; a \<open>get\<close> at
  time 50 is a hit, a \<open>get\<close> at time 150 finds the entry expired and removes it, and a
  \<open>get\<close> of another key is a miss.\<close>

theorem get_ttl_correct_nonnull_witness:
  "fst (get 50 ''streak'' ''streak''
          (set_cache 0 ''streak'' (JNum 5) ''streak'' (Some 100) newCacheManager)) = JNum 5
   \<and> hits (stats (snd (get 50 ''streak'' ''streak''
          (set_cache 0 ''streak'' (JNum 5) ''streak'' (Some 100) newCacheManager)))) = 1
   \<and> map_of (store (snd (get 50 ''streak'' ''streak''
          (set_cache 0 ''streak'' (JNum 5) ''streak'' (Some 100) newCacheManager))))
        (buildKey ''streak'' ''streak'')
       = Some \<lparr>data = JNum 5, ttl = 100, timestamp = 0, key = ''streak:streak'',
                accessCount = 1, lastAccessTime = 50\<rparr>
   \<and> fst (get 150 ''streak'' ''streak''
          (set_cache 0 ''streak'' (JNum 5) ''streak'' (Some 100) newCacheManager)) \<noteq> JNum 5
   \<and> fst (get 150 ''streak'' ''streak''
          (set_cache 0 ''streak'' (JNum 5) ''streak'' (Some 100) newCacheManager)) = JNull
   \<and> invalidations (stats (snd (get 150 ''streak'' ''streak''
          (set_cache 0 ''streak'' (JNum 5) ''streak'' (Some 100) newCacheManager)))) = 1
   \<and> entryCount (snd (get 150 ''streak'' ''streak''
          (set_cache 0 ''streak'' (JNum 5) ''streak'' (Some 100) newCacheManager))) = 0
   \<and> fst (get 50 ''progress'' ''streak''
          (set_cache 0 ''streak'' (JNum 5) ''streak'' (Some 100) newCacheManager)) = JNull
   \<and> misses (stats (snd (get 50 ''progress'' ''streak''
          (set_cache 0 ''streak'' (JNum 5) ''streak'' (Some 100) newCacheManager)))) = 1"
proof -
  let ?cm = "set_cache 0 ''streak'' (JNum 5) ''streak'' (Some 100) newCacheManager"
  let ?e = "\<lparr>data = JNum 5, ttl = 100, timestamp = 0, key = ''streak:streak'',
             accessCount = 0, lastAccessTime = 0\<rparr>"
  have e: "map_of (store ?cm) (buildKey ''streak'' ''streak'') = Some ?e"
    by (simp add: set_cache_def newCacheManager_def newCacheEntry_def buildKey_def Let_def)
  have n: "map_of (store ?cm) (buildKey ''progress'' ''streak'') = None"
    by (simp add: set_cache_def newCacheManager_def newCacheEntry_def buildKey_def Let_def)
  have s: "stats ?cm = \<lparr>hits = 0, misses = 0, invalidations = 0, writes = 1\<rparr>"
    by (simp add: set_cache_def newCacheManager_def Let_def)
  have c: "entryCount ?cm = 1"
    by (simp add: set_cache_def newCacheManager_def entryCount_def Let_def)
  have nn: "data ?e \<noteq> JNull"
    by simp
  have v50: "50 - timestamp ?e < ttl ?e" and v150: "\<not> 150 - timestamp ?e < ttl ?e"
    by simp_all
  note at50 = get_ttl_correct_nonnull [of ?cm "''streak''" "''streak''" ?e 50,
      THEN conjunct1, rule_format, OF e]
  note at150 = get_ttl_correct_nonnull [of ?cm "''streak''" "''streak''" ?e 150,
      THEN conjunct1, rule_format, OF e]
  note hit = at50 [THEN conjunct2, THEN conjunct1, rule_format, OF v50]
  note iff150 = at150 [THEN conjunct1, rule_format, OF nn]
  note expired = at150 [THEN conjunct2, THEN conjunct2, rule_format, OF v150]
  note miss = get_ttl_correct_nonnull [of ?cm "''progress''" "''streak''" ?e 50,
      THEN conjunct2, rule_format, OF n]
  have "fst (get 150 ''streak'' ''streak'' ?cm) \<noteq> JNum 5"
    using iff150 v150 by simp
  moreover have "entryCount (snd (get 150 ''streak'' ''streak'' ?cm)) = 0"
    using expired [THEN conjunct2, THEN conjunct2] c by simp
  moreover have "map_of (store (snd (get 50 ''streak'' ''streak'' ?cm))) (buildKey ''streak'' ''streak'')
       = Some \<lparr>data = JNum 5, ttl = 100, timestamp = 0, key = ''streak:streak'',
                accessCount = 1, lastAccessTime = 50\<rparr>"
    using hit [THEN conjunct2, THEN conjunct1] by simp
  ultimately show ?thesis
    by (simp add: hit [THEN conjunct1] expired [THEN conjunct1] miss s)
qed

lemma store_set_cache:
  "map_of (store (set_cache t0 k v ns t cm)) k' =
     (if k' = buildKey k ns
      then Some (newCacheEntry t0 v (num_or (num_or t (defaultTTLs cm ns)) (defaultTTLs cm ''default''))
                   (buildKey k ns))
      else map_of (store cm) k')"
  by (simp add: set_cache_def Let_def map_of_Map_set)

lemma set_negative_ttl_expired:
  assumes "t < 0" and "t0 \<le> now"
  shows "fst (get now k ns (set_cache t0 k v ns (Some t) cm)) = JNull"
    and "fst (has now k ns (set_cache t0 k v ns (Some t) cm)) = False"
  using assms
  by (simp_all add: get_def has_def Let_def store_set_cache newCacheEntry_def isValid_def)

subsection \<open>A zero TTL\<close>

text \<open>
  C4. An explicit \<open>ttl\<close> of zero is falsy, so \<open>ttl || ...\<close> in \<open>set\<close> replaces it by
  the default of the namespace: \<open>set\<close> with \<open>ttl = 0\<close> does what \<open>set\<close> without a
  \<open>ttl\<close> does, and the entry is not expired. With the fresh manager,
  \<open>set("k", "v", "default", 0)\<close> at time 0 stores an entry with a TTL of ten minutes,
  and \<open>get\<close> and \<open>has\<close> still find it at time 599999.
\<close>

theorem set_zero_ttl_uses_default:
  "set_cache now k v ns (Some 0) cm = set_cache now k v ns None cm
   \<and> map (\<lambda>p. ttl (snd p)) (store (set_cache 0 ''k'' (JStr ''v'') ''default'' (Some 0) newCacheManager))
       = [600000]
   \<and> fst (get 599999 ''k'' ''default''
            (set_cache 0 ''k'' (JStr ''v'') ''default'' (Some 0) newCacheManager)) = JStr ''v''
   \<and> fst (has 599999 ''k'' ''default''
            (set_cache 0 ''k'' (JStr ''v'') ''default'' (Some 0) newCacheManager)) = True"
  by (simp add: set_cache_def get_def has_def Let_def newCacheManager_def newCacheEntry_def
      buildKey_def isValid_def)

subsection \<open>Namespaces and keys\<close>

lemma append_sep_inject:
  "c \<notin> set a \<Longrightarrow> c \<notin> set b \<Longrightarrow> a @ c # x = b @ c # y \<Longrightarrow> a = b \<and> x = y"
proof (induction a arbitrary: b)
  case Nil
  then show ?case by (cases b) auto
next
  case (Cons h a)
  then show ?case by (cases b) auto
qed

lemma buildKey_inject:
  "CHR '':'' \<notin> set ns1 \<Longrightarrow> CHR '':'' \<notin> set ns2 \<Longrightarrow>
   (buildKey k1 ns1 = buildKey k2 ns2) = (ns1 = ns2 \<and> k1 = k2)"
  using append_sep_inject [of "CHR '':''" ns1 ns2 k1 k2] by (auto simp: buildKey_def)

lemma startsWith_iff: "startsWith s p = (\<exists>r. s = p @ r)"
  unfolding startsWith_def
  by (metis append_eq_conv_conj append_take_drop_id)

lemma startsWith_buildKey:
  "CHR '':'' \<notin> set ns1 \<Longrightarrow> CHR '':'' \<notin> set ns2 \<Longrightarrow>
   startsWith (buildKey k ns2) (ns1 @ '':'') = (ns1 = ns2)"
proof
  assume a: "CHR '':'' \<notin> set ns1" "CHR '':'' \<notin> set ns2"
    and "startsWith (buildKey k ns2) (ns1 @ '':'')"
  then obtain r where "ns2 @ CHR '':'' # k = ns1 @ CHR '':'' # r"
    by (auto simp: startsWith_iff buildKey_def)
  with a show "ns1 = ns2" using append_sep_inject by metis
next
  assume "ns1 = ns2"
  then show "startsWith (buildKey k ns2) (ns1 @ '':'')"
    by (simp add: startsWith_def buildKey_def)
qed

lemma fold_Map_delete:
  "fold (\<lambda>k st. if P k then Map_delete k st else st) ks st =
     filter (\<lambda>p. \<not> (fst p \<in> set ks \<and> P (fst p))) st"
proof (induction ks arbitrary: st)
  case Nil
  then show ?case by simp
next
  case (Cons k ks)
  show ?case
    by (auto simp: Cons.IH Map_delete_def intro!: filter_cong)
qed

lemma map_of_filter_fst:
  "map_of (filter (\<lambda>p. Q (fst p)) ps) k = (if Q k then map_of ps k else None)"
  by (induction ps) auto

lemma store_clear:
  "ns \<noteq> [] \<Longrightarrow>
   map_of (store (clear (Some ns) cm)) k =
     (if startsWith k (ns @ '':'') then None else map_of (store cm) k)"
proof -
  assume ns: "ns \<noteq> []"
  have "store (clear (Some ns) cm) = filter (\<lambda>p. \<not> startsWith (fst p) (ns @ '':'')) (store cm)"
    using ns by (auto simp: clear_def fold_Map_delete intro!: filter_cong)
  then show ?thesis
    using map_of_filter_fst [of "\<lambda>k. \<not> startsWith k (ns @ '':'')" "store cm" k] by simp
qed

lemma store_get:
  "map_of (store (snd (get now k ns cm))) k' =
     (if k' = buildKey k ns
      then (case map_of (store cm) k' of None \<Rightarrow> None
            | Some e \<Rightarrow> if isValid now e then Some (recordAccess now e) else None)
      else map_of (store cm) k')"
  by (simp add: get_def Let_def map_of_Map_set map_of_Map_delete split: option.splits)

lemma store_has:
  "map_of (store (snd (has now k ns cm))) k' =
     (if k' = buildKey k ns
      then (case map_of (store cm) k' of None \<Rightarrow> None
            | Some e \<Rightarrow> if isValid now e then Some e else None)
      else map_of (store cm) k')"
  by (simp add: has_def Let_def map_of_Map_delete split: option.splits)

lemma store_delete:
  "map_of (store (snd (delete k ns cm))) k' =
     (if k' = buildKey k ns then None else map_of (store cm) k')"
  by (auto simp: delete_def Let_def map_of_Map_delete)

lemma Map_set_keys:
  "map fst (Map_set k v ps) = (if k \<in> fst ` set ps then map fst ps else map fst ps @ [k])"
  by (induction ps) auto

lemma distinct_Map_set: "distinct (map fst ps) \<Longrightarrow> distinct (map fst (Map_set k v ps))"
  by (auto simp: Map_set_keys)

lemma distinct_Map_delete: "distinct (map fst ps) \<Longrightarrow> distinct (map fst (Map_delete k ps))"
  by (simp add: Map_delete_def distinct_map_filter)

lemma count_Map_set:
  "distinct (map fst ps) \<Longrightarrow> length (filter (\<lambda>p. fst p = k) (Map_set k v ps)) = 1"
proof (induction ps)
  case Nil
  then show ?case by simp
next
  case (Cons p ps)
  show ?case
  proof (cases "fst p = k")
    case True
    with Cons.prems have "k \<notin> fst ` set ps" by auto
    then have "filter (\<lambda>p. fst p = k) ps = []" by (auto simp: filter_empty_conv)
    with True show ?thesis by simp
  next
    case False
    with Cons show ?thesis by simp
  qed
qed

lemma get_value_cong:
  "map_of (store a) (buildKey k ns) = map_of (store b) (buildKey k ns) \<Longrightarrow>
   fst (get now k ns a) = fst (get now k ns b)"
  by (simp add: get_def Let_def split: option.splits)

text \<open>
  C3 (as stated, it fails). The namespaced key is \<open>namespace:key\<close>, so the pairs
  \<open>("a", "b:c")\<close> and \<open>("a:b", "c")\<close> share the entry \<open>a:b:c\<close>: a \<open>set\<close> through the first
  pair is read through the second. And \<open>clear("")\<close> takes the branch that clears
  everything, so it removes the entry \<open>x\<close> of namespace \<open>b\<close>.
\<close>

theorem namespace_key_collision:
  "(''a'', ''b:c'') \<noteq> (''a:b'', ''c'')
   \<and> fst (get 1 ''c'' ''a:b'' newCacheManager) = JNull
   \<and> fst (get 1 ''c'' ''a:b'' (set_cache 0 ''b:c'' (JNum 1) ''a'' None newCacheManager)) = JNum 1
   \<and> fst (get 1 ''x'' ''b'' (set_cache 0 ''x'' (JNum 2) ''b'' None newCacheManager)) = JNum 2
   \<and> fst (get 1 ''x'' ''b''
         (clear (Some '''') (set_cache 0 ''x'' (JNum 2) ''b'' None newCacheManager))) = JNull"
  by (simp add: get_def set_cache_def clear_def Let_def buildKey_def newCacheManager_def
      newCacheEntry_def isValid_def)

text \<open>
  C3 (amended). For namespaces that contain no \<open>:\<close>, namespace and key together
  address one entry: the namespaced keys of two pairs are equal only if the pairs are,
  and \<open>set\<close>, \<open>get\<close>, \<open>has\<close> and \<open>delete\<close> on one pair leave the entry of every other
  pair as it is (so a \<open>get\<close> of the other pair returns what it returned before a \<open>set\<close>
  or a \<open>delete\<close>). Clearing a non-empty namespace removes its entries and leaves the
  entries of every other namespace. Writing the same pair twice, in a store whose keys
  are distinct, leaves exactly one entry for the pair, and it holds the second value.
\<close>

theorem namespace_key_addressing:
  "(CHR '':'' \<notin> set ns1 \<longrightarrow> CHR '':'' \<notin> set ns2 \<longrightarrow>
      ((buildKey k1 ns1 = buildKey k2 ns2) = (ns1 = ns2 \<and> k1 = k2))
      \<and> ((ns1, k1) \<noteq> (ns2, k2) \<longrightarrow>
            map_of (store (set_cache now k1 v ns1 t cm)) (buildKey k2 ns2)
              = map_of (store cm) (buildKey k2 ns2)
          \<and> map_of (store (snd (get now k1 ns1 cm))) (buildKey k2 ns2)
              = map_of (store cm) (buildKey k2 ns2)
          \<and> map_of (store (snd (has now k1 ns1 cm))) (buildKey k2 ns2)
              = map_of (store cm) (buildKey k2 ns2)
          \<and> map_of (store (snd (delete k1 ns1 cm))) (buildKey k2 ns2)
              = map_of (store cm) (buildKey k2 ns2)
          \<and> fst (get now' k2 ns2 (set_cache now k1 v ns1 t cm)) = fst (get now' k2 ns2 cm)
          \<and> fst (get now' k2 ns2 (snd (delete k1 ns1 cm))) = fst (get now' k2 ns2 cm))
      \<and> (ns1 \<noteq> [] \<longrightarrow>
            map_of (store (clear (Some ns1) cm)) (buildKey k1 ns1) = None
          \<and> (ns1 \<noteq> ns2 \<longrightarrow>
                map_of (store (clear (Some ns1) cm)) (buildKey k2 ns2)
                  = map_of (store cm) (buildKey k2 ns2))))
   \<and> (distinct (map fst (store cm)) \<longrightarrow>
        length (filter (\<lambda>p. fst p = buildKey k ns)
                  (store (set_cache t2 k v2 ns ttl2 (set_cache t1 k v1 ns ttl1 cm)))) = 1
        \<and> map_option data
            (map_of (store (set_cache t2 k v2 ns ttl2 (set_cache t1 k v1 ns ttl1 cm))) (buildKey k ns))
            = Some v2)"
proof (intro conjI impI)
  assume d: "distinct (map fst (store cm))"
  have "distinct (map fst (store (set_cache t1 k v1 ns ttl1 cm)))"
    using d by (simp add: set_cache_def Let_def distinct_Map_set)
  then show "length (filter (\<lambda>p. fst p = buildKey k ns)
                  (store (set_cache t2 k v2 ns ttl2 (set_cache t1 k v1 ns ttl1 cm)))) = 1"
    using count_Map_set [of "store (set_cache t1 k v1 ns ttl1 cm)" "buildKey k ns"]
    by (simp add: set_cache_def [of t2] Let_def)
next
  show "map_option data
            (map_of (store (set_cache t2 k v2 ns ttl2 (set_cache t1 k v1 ns ttl1 cm))) (buildKey k ns))
            = Some v2"
    by (simp add: store_set_cache newCacheEntry_def)
next
  assume c: "CHR '':'' \<notin> set ns1" "CHR '':'' \<notin> set ns2"
  show "(buildKey k1 ns1 = buildKey k2 ns2) = (ns1 = ns2 \<and> k1 = k2)"
    by (rule buildKey_inject [OF c])
  {
    assume "ns1 \<noteq> []"
    then show "map_of (store (clear (Some ns1) cm)) (buildKey k1 ns1) = None"
      by (simp add: store_clear startsWith_def buildKey_def)
    assume "ns1 \<noteq> ns2"
    with \<open>ns1 \<noteq> []\<close> show "map_of (store (clear (Some ns1) cm)) (buildKey k2 ns2)
                  = map_of (store cm) (buildKey k2 ns2)"
      by (simp add: store_clear startsWith_buildKey [OF c])
  }
  assume "(ns1, k1) \<noteq> (ns2, k2)"
  with buildKey_inject [OF c, of k1 k2] have ne: "buildKey k2 ns2 \<noteq> buildKey k1 ns1"
    by auto
  show s: "map_of (store (set_cache now k1 v ns1 t cm)) (buildKey k2 ns2)
              = map_of (store cm) (buildKey k2 ns2)"
    using ne by (simp add: store_set_cache)
  show "map_of (store (snd (get now k1 ns1 cm))) (buildKey k2 ns2)
              = map_of (store cm) (buildKey k2 ns2)"
    using ne by (simp add: store_get)
  show "map_of (store (snd (has now k1 ns1 cm))) (buildKey k2 ns2)
              = map_of (store cm) (buildKey k2 ns2)"
    using ne by (simp add: store_has)
  show x: "map_of (store (snd (delete k1 ns1 cm))) (buildKey k2 ns2)
              = map_of (store cm) (buildKey k2 ns2)"
    using ne by (simp add: store_delete)
  show "fst (get now' k2 ns2 (set_cache now k1 v ns1 t cm)) = fst (get now' k2 ns2 cm)"
    by (rule get_value_cong [OF s])
  show "fst (get now' k2 ns2 (snd (delete k1 ns1 cm))) = fst (get now' k2 ns2 cm)"
    by (rule get_value_cong [OF x])
qed

text \<open>Key \<open>x\<close> in namespace \<open>a\<close> and key \<open>x\<close> in namespace \<open>b\<close>: writing the first and
  clearing \<open>a\<close> leave the second, and two writes of the first leave one entry.\<close>

theorem namespace_key_addressing_witness:
  "buildKey ''x'' ''a'' \<noteq> buildKey ''x'' ''b''
   \<and> fst (get 1 ''x'' ''b''
        (set_cache 1 ''x'' (JNum 1) ''a'' None
           (set_cache 0 ''x'' (JNum 2) ''b'' None newCacheManager))) = JNum 2
   \<and> map_of (store (clear (Some ''a'')
        (set_cache 1 ''x'' (JNum 1) ''a'' None
           (set_cache 0 ''x'' (JNum 2) ''b'' None newCacheManager)))) (buildKey ''x'' ''a'') = None
   \<and> map_option data (map_of (store (clear (Some ''a'')
        (set_cache 1 ''x'' (JNum 1) ''a'' None
           (set_cache 0 ''x'' (JNum 2) ''b'' None newCacheManager)))) (buildKey ''x'' ''b''))
       = Some (JNum 2)
   \<and> length (filter (\<lambda>p. fst p = buildKey ''x'' ''a'')
        (store (set_cache 2 ''x'' (JNum 3) ''a'' None
           (set_cache 1 ''x'' (JNum 1) ''a'' None
              (set_cache 0 ''x'' (JNum 2) ''b'' None newCacheManager))))) = 1
   \<and> map_option data (map_of
        (store (set_cache 2 ''x'' (JNum 3) ''a'' None
           (set_cache 1 ''x'' (JNum 1) ''a'' None
              (set_cache 0 ''x'' (JNum 2) ''b'' None newCacheManager)))) (buildKey ''x'' ''a''))
       = Some (JNum 3)"
proof -
  let ?b = "set_cache 0 ''x'' (JNum 2) ''b'' None newCacheManager"
  let ?ab = "set_cache 1 ''x'' (JNum 1) ''a'' None ?b"
  have c: "CHR '':'' \<notin> set ''a''" "CHR '':'' \<notin> set ''b''"
    by simp_all
  have ne: "(''a'', ''x'') \<noteq> (''b'', ''x'')" and na: "''a'' \<noteq> []" and ab: "''a'' \<noteq> ''b''"
    by simp_all
  have d: "distinct (map fst (store ?b))"
    by (simp add: set_cache_def Let_def newCacheManager_def)
  have b: "fst (get 1 ''x'' ''b'' ?b) = JNum 2"
    and sb: "map_option data (map_of (store ?ab) (buildKey ''x'' ''b'')) = Some (JNum 2)"
    by (simp_all add: get_def set_cache_def Let_def newCacheManager_def newCacheEntry_def
        buildKey_def isValid_def)
  note keys = namespace_key_addressing [where ?ns1.0 = "''a''" and ?ns2.0 = "''b''"
      and ?k1.0 = "''x''" and ?k2.0 = "''x''", THEN conjunct1, rule_format, OF c]
  note other = keys [where cm = ?b and now = 1 and v = "JNum 1" and t = None and now' = 1,
      THEN conjunct2, THEN conjunct1, rule_format, OF ne]
  note cleared = keys [where cm = ?ab, THEN conjunct2, THEN conjunct2, rule_format, OF na]
  note twice = namespace_key_addressing [where cm = ?b and k = "''x''" and ns = "''a''"
      and ?t1.0 = 1 and ?v1.0 = "JNum 1" and ?ttl1.0 = None
      and ?t2.0 = 2 and ?v2.0 = "JNum 3" and ?ttl2.0 = None, THEN conjunct2, rule_format, OF d]
  have "buildKey ''x'' ''a'' \<noteq> buildKey ''x'' ''b''"
    using keys [THEN conjunct1] by simp
  moreover have "fst (get 1 ''x'' ''b'' ?ab) = JNum 2"
    using other b by simp
  moreover have "map_of (store (clear (Some ''a'') ?ab)) (buildKey ''x'' ''a'') = None"
    by (rule cleared [THEN conjunct1])
  moreover have "map_option data (map_of (store (clear (Some ''a'') ?ab)) (buildKey ''x'' ''b''))
       = Some (JNum 2)"
    using cleared [THEN conjunct2, rule_format, OF ab] sb by simp
  ultimately show ?thesis
    using twice by blast
qed

subsection \<open>Pattern invalidation\<close>

lemma invalidatePattern_loop:
  "fold (\<lambda>k (st, count). if P k then (Map_delete k st, count + 1) else (st, count)) ks (st, n) =
     (filter (\<lambda>p. \<not> (fst p \<in> set ks \<and> P (fst p))) st, n + length (filter P ks))"
proof (induction ks arbitrary: st n)
  case Nil
  then show ?case by simp
next
  case (Cons k ks)
  show ?case
    by (auto simp: Cons.IH Map_delete_def intro!: filter_cong)
qed

lemma invalidatePattern_result:
  "RegExp pattern = Some test \<Longrightarrow>
   invalidatePattern RegExp pattern ns cm =
     Inr (length (filter (\<lambda>p. startsWith (fst p) (ns @ '':'') \<and> test (fst p)) (store cm)),
          cm\<lparr>store := filter (\<lambda>p. \<not> (startsWith (fst p) (ns @ '':'') \<and> test (fst p))) (store cm)\<rparr>)"
proof -
  assume r: "RegExp pattern = Some test"
  let ?P = "\<lambda>k. startsWith k (ns @ '':'') \<and> test k"
  have 1: "filter (\<lambda>p. \<not> (fst p \<in> set (map fst (store cm)) \<and> ?P (fst p))) (store cm)
         = filter (\<lambda>p. \<not> ?P (fst p)) (store cm)"
    by (auto intro!: filter_cong)
  have 2: "length (filter ?P (map fst (store cm))) = length (filter (\<lambda>p. ?P (fst p)) (store cm))"
    by (simp add: filter_map comp_def)
  show ?thesis
    using invalidatePattern_loop [of ?P "map fst (store cm)" "store cm" 0] 1 2
    by (simp add: invalidatePattern_def r)
qed

text \<open>
  C2 (as stated, it fails). The regular expression is tested against the namespaced
  key, not against the bare key. With the keys \<open>lesson_1\<close> and \<open>progress\<close> in namespace
  \<open>lessons\<close>, the pattern \<open>lesson\<close> does not match the bare key \<open>progress\<close>, but it
  matches \<open>lessons:progress\<close>: \<open>invalidatePattern("lesson", "lessons")\<close> removes both
  entries and returns 2, and \<open>progress\<close> is no longer retrievable.
\<close>

theorem invalidatePattern_bare_key_counterexample:
  "map fst (store (set_cache 0 ''progress'' (JNum 3) ''lessons'' None
                    (set_cache 0 ''lesson_1'' (JNum 1) ''lessons'' None newCacheManager)))
     = [buildKey ''lesson_1'' ''lessons'', buildKey ''progress'' ''lessons'']
   \<and> regex_test RegExp_simple ''lesson'' ''lesson_1''
   \<and> \<not> regex_test RegExp_simple ''lesson'' ''progress''
   \<and> fst (get 1 ''progress'' ''lessons''
        (set_cache 0 ''progress'' (JNum 3) ''lessons'' None
           (set_cache 0 ''lesson_1'' (JNum 1) ''lessons'' None newCacheManager))) = JNum 3
   \<and> invalidatePattern RegExp_simple ''lesson'' ''lessons''
        (set_cache 0 ''progress'' (JNum 3) ''lessons'' None
           (set_cache 0 ''lesson_1'' (JNum 1) ''lessons'' None newCacheManager))
       = Inr (2, (set_cache 0 ''progress'' (JNum 3) ''lessons'' None
                   (set_cache 0 ''lesson_1'' (JNum 1) ''lessons'' None newCacheManager))
                 \<lparr>store := []\<rparr>)
   \<and> fst (get 1 ''progress'' ''lessons''
        ((set_cache 0 ''progress'' (JNum 3) ''lessons'' None
           (set_cache 0 ''lesson_1'' (JNum 1) ''lessons'' None newCacheManager))
         \<lparr>store := []\<rparr>)) = JNull"
  by (simp add: invalidatePattern_def RegExp_simple_def regex_test_def get_def set_cache_def
      Let_def buildKey_def newCacheManager_def newCacheEntry_def isValid_def startsWith_def
      Map_delete_def)

text \<open>
  C2 (amended). When the pattern compiles, \<open>invalidatePattern(p, ns)\<close> deletes exactly
  the entries whose namespaced key \<open>ns:key\<close> starts with \<open>ns:\<close> and matches the regular
  expression compiled from \<open>p\<close>, the match being tested against the namespaced key; it
  returns the number of entries removed, and every other entry stays as it is. When
  the pattern does not compile, the call throws the \<open>SyntaxError\<close> and removes nothing.
\<close>

theorem invalidatePattern_namespaced_key:
  "(RegExp pattern = Some test \<longrightarrow>
      (\<exists>n cm'. invalidatePattern RegExp pattern ns cm = Inr (n, cm')
         \<and> n = length (filter (\<lambda>p. startsWith (fst p) (ns @ '':'') \<and> test (fst p)) (store cm))
         \<and> entryCount cm' + n = entryCount cm
         \<and> (\<forall>k. map_of (store cm') (buildKey k ns) =
                   (if test (buildKey k ns) then None else map_of (store cm) (buildKey k ns)))
         \<and> (\<forall>k'. \<not> startsWith k' (ns @ '':'') \<longrightarrow> map_of (store cm') k' = map_of (store cm) k')
         \<and> stats cm' = stats cm))
   \<and> (RegExp pattern = None \<longrightarrow> invalidatePattern RegExp pattern ns cm = Inl SyntaxError)"
proof (intro conjI impI)
  assume "RegExp pattern = None"
  then show "invalidatePattern RegExp pattern ns cm = Inl SyntaxError"
    by (simp add: invalidatePattern_def)
next
  assume r: "RegExp pattern = Some test"
  let ?P = "\<lambda>k. startsWith k (ns @ '':'') \<and> test k"
  let ?n = "length (filter (\<lambda>p. ?P (fst p)) (store cm))"
  let ?cm = "cm\<lparr>store := filter (\<lambda>p. \<not> ?P (fst p)) (store cm)\<rparr>"
  have res: "invalidatePattern RegExp pattern ns cm = Inr (?n, ?cm)"
    using r by (rule invalidatePattern_result [of RegExp pattern test ns cm])
  have cnt: "entryCount ?cm + ?n = entryCount cm"
    using sum_length_filter_compl [of "\<lambda>p. ?P (fst p)" "store cm"]
    by (simp add: entryCount_def)
  have look: "map_of (store ?cm) k' = (if \<not> ?P k' then map_of (store cm) k' else None)" for k'
    using map_of_filter_fst [of "\<lambda>k. \<not> ?P k" "store cm" k'] by simp
  have pre: "startsWith (buildKey k ns) (ns @ '':'')" for k
    by (simp add: startsWith_def buildKey_def)
  have "\<forall>k. map_of (store ?cm) (buildKey k ns) =
                   (if test (buildKey k ns) then None else map_of (store cm) (buildKey k ns))"
    unfolding look using pre by simp
  moreover have "\<forall>k'. \<not> startsWith k' (ns @ '':'') \<longrightarrow> map_of (store ?cm) k' = map_of (store cm) k'"
    unfolding look by simp
  moreover have "stats ?cm = stats cm" by simp
  ultimately show "\<exists>n cm'. invalidatePattern RegExp pattern ns cm = Inr (n, cm')
         \<and> n = length (filter (\<lambda>p. startsWith (fst p) (ns @ '':'') \<and> test (fst p)) (store cm))
         \<and> entryCount cm' + n = entryCount cm
         \<and> (\<forall>k. map_of (store cm') (buildKey k ns) =
                   (if test (buildKey k ns) then None else map_of (store cm) (buildKey k ns)))
         \<and> (\<forall>k'. \<not> startsWith k' (ns @ '':'') \<longrightarrow> map_of (store cm') k' = map_of (store cm) k')
         \<and> stats cm' = stats cm"
    using res cnt by blast
qed

text \<open>The keys \<open>lesson_1\<close>, \<open>lesson_2\<close> and \<open>progress\<close> in namespace \<open>lessons\<close>:
  \<open>invalidatePattern("lesson_.*", "lessons")\<close> removes the two lesson entries and returns
  2, and \<open>progress\<close> is still there.\<close>

theorem invalidatePattern_namespaced_key_witness:
  "\<not> isl (invalidatePattern RegExp_simple ''lesson_.*'' ''lessons''
        (set_cache 0 ''progress'' (JNum 3) ''lessons'' None
          (set_cache 0 ''lesson_2'' (JNum 2) ''lessons'' None
            (set_cache 0 ''lesson_1'' (JNum 1) ''lessons'' None newCacheManager))))
   \<and> fst (projr (invalidatePattern RegExp_simple ''lesson_.*'' ''lessons''
        (set_cache 0 ''progress'' (JNum 3) ''lessons'' None
          (set_cache 0 ''lesson_2'' (JNum 2) ''lessons'' None
            (set_cache 0 ''lesson_1'' (JNum 1) ''lessons'' None newCacheManager))))) = 2
   \<and> map fst (store (snd (projr (invalidatePattern RegExp_simple ''lesson_.*'' ''lessons''
        (set_cache 0 ''progress'' (JNum 3) ''lessons'' None
          (set_cache 0 ''lesson_2'' (JNum 2) ''lessons'' None
            (set_cache 0 ''lesson_1'' (JNum 1) ''lessons'' None newCacheManager)))))))
       = [buildKey ''progress'' ''lessons'']"
proof -
  let ?cm = "set_cache 0 ''progress'' (JNum 3) ''lessons'' None
          (set_cache 0 ''lesson_2'' (JNum 2) ''lessons'' None
            (set_cache 0 ''lesson_1'' (JNum 1) ''lessons'' None newCacheManager))"
  let ?test = "search [(Lit CHR ''l'', False), (Lit CHR ''e'', False), (Lit CHR ''s'', False),
                 (Lit CHR ''s'', False), (Lit CHR ''o'', False), (Lit CHR ''n'', False),
                 (Lit CHR ''_'', False), (AnyChar, True)] False"
  have r: "RegExp_simple ''lesson_.*'' = Some ?test"
    by (simp add: RegExp_simple_def)
  have keys: "map fst (store ?cm) =
      [buildKey ''lesson_1'' ''lessons'', buildKey ''lesson_2'' ''lessons'',
       buildKey ''progress'' ''lessons'']"
    by (simp add: set_cache_def Let_def newCacheManager_def buildKey_def)
  have t: "?test (buildKey ''lesson_1'' ''lessons'')" "?test (buildKey ''lesson_2'' ''lessons'')"
    "\<not> ?test (buildKey ''progress'' ''lessons'')"
    by (simp_all add: buildKey_def)
  from invalidatePattern_namespaced_key [of RegExp_simple "''lesson_.*''" ?test "''lessons''" ?cm,
      THEN conjunct1, rule_format, OF r]
  obtain n cm' where res: "invalidatePattern RegExp_simple ''lesson_.*'' ''lessons'' ?cm = Inr (n, cm')"
    and n: "n = length (filter (\<lambda>p. startsWith (fst p) (''lessons'' @ '':'') \<and> ?test (fst p)) (store ?cm))"
    and cnt: "entryCount cm' + n = entryCount ?cm"
    and look: "\<forall>k. map_of (store cm') (buildKey k ''lessons'') =
                   (if ?test (buildKey k ''lessons'') then None
                    else map_of (store ?cm) (buildKey k ''lessons''))"
    by blast
  have "length (filter (\<lambda>k. startsWith k (''lessons'' @ '':'') \<and> ?test k) (map fst (store ?cm))) = 2"
    unfolding keys using t by (simp add: startsWith_def buildKey_def)
  then have n2: "n = 2"
    unfolding n by (simp add: filter_map comp_def)
  have "cm' = ?cm\<lparr>store := filter (\<lambda>p. \<not> (startsWith (fst p) (''lessons'' @ '':'') \<and> ?test (fst p))) (store ?cm)\<rparr>"
    using res invalidatePattern_result [of RegExp_simple "''lesson_.*''" ?test "''lessons''" ?cm] r
    by simp
  then have "map fst (store cm') =
      filter (\<lambda>k. \<not> (startsWith k (''lessons'' @ '':'') \<and> ?test k)) (map fst (store ?cm))"
    by (simp add: filter_map comp_def)
  then have "map fst (store cm') = [buildKey ''progress'' ''lessons'']"
    unfolding keys using t by (simp add: startsWith_def buildKey_def)
  with res n2 show ?thesis by simp
qed

subsection \<open>Export and import\<close>




lemma or_zero_Some: "or_zero (Some n) = n"
  by simp





subsection \<open>The keys of the store stay distinct\<close>

text \<open>The store is a \<open>Map\<close>: its keys are distinct in the fresh manager, and every
  operation keeps them distinct.\<close>

lemma distinct_fold_Map_set:
  "distinct (map fst acc) \<Longrightarrow> distinct (map fst (fold (\<lambda>(k, v) st. Map_set k (f k v) st) ps acc))"
  by (induction ps arbitrary: acc) (auto simp: distinct_Map_set)

lemma distinct_keys_new: "distinct (map fst (store newCacheManager))"
  by (simp add: newCacheManager_def)

lemma distinct_keys_preserved:
  assumes "distinct (map fst (store cm))"
  shows "distinct (map fst (store (set_cache now k v ns t cm)))"
    and "distinct (map fst (store (snd (get now k ns cm))))"
    and "distinct (map fst (store (snd (has now k ns cm))))"
    and "distinct (map fst (store (snd (delete k ns cm))))"
    and "distinct (map fst (store (invalidate k ns cm)))"
    and "distinct (map fst (store (clear nsopt cm)))"
    and "invalidatePattern RegExp pattern ns cm = Inr (n, cm') \<Longrightarrow> distinct (map fst (store cm'))"
proof -
  show "distinct (map fst (store (set_cache now k v ns t cm)))"
    using assms by (simp add: set_cache_def Let_def distinct_Map_set)
  show "distinct (map fst (store (snd (get now k ns cm))))"
    using assms
    by (simp add: get_def Let_def distinct_Map_set distinct_Map_delete split: option.splits)
  show "distinct (map fst (store (snd (has now k ns cm))))"
    using assms by (simp add: has_def Let_def distinct_Map_delete split: option.splits)
  show d: "distinct (map fst (store (snd (delete k ns cm))))"
    using assms by (simp add: delete_def Let_def distinct_Map_delete)
  then show "distinct (map fst (store (invalidate k ns cm)))"
    by (simp add: invalidate_def)
  show "distinct (map fst (store (clear nsopt cm)))"
    using assms by (simp add: clear_def fold_Map_delete distinct_map_filter split: option.splits)
  assume "invalidatePattern RegExp pattern ns cm = Inr (n, cm')"
  then show "distinct (map fst (store cm'))"
  proof (cases "RegExp pattern")
    case None
    with \<open>invalidatePattern RegExp pattern ns cm = Inr (n, cm')\<close> show ?thesis
      by (simp add: invalidatePattern_def)
  next
    case (Some test)
    from invalidatePattern_result [of RegExp pattern test ns cm, OF Some]
      \<open>invalidatePattern RegExp pattern ns cm = Inr (n, cm')\<close>
    have "store cm' = filter (\<lambda>p. \<not> (startsWith (fst p) (ns @ '':'') \<and> test (fst p))) (store cm)"
      by auto
    with assms show ?thesis
      by (simp add: distinct_map_filter)
  qed
qed

lemma distinct_keys_import: "distinct (map fst (store (import_cache now dat cm)))"
  using distinct_fold_Map_set [of "[]"] by (simp add: import_cache_def)

section \<open>Properties of the cached API service\<close>

lemma cachedCall_fetch_calls: "fst (snd (cachedCall_fetch now strat ck config fetcher cm)) = 1"
  by (simp add: cachedCall_fetch_def Let_def split: prod.splits sum.splits)

lemma cachedCall_fetch_result:
  "fetcher cm = (r, cm1) \<Longrightarrow> strat \<noteq> ''network-first'' \<Longrightarrow>
   cachedCall_fetch now strat ck config fetcher cm =
     (r, 1,
      case r of
        Inl err \<Rightarrow> cm1
      | Inr result \<Rightarrow>
          if truthy (get_prop result ''success'') \<or> \<not> truthy (get_prop result ''error'')
          then set_cache now ck (js_or (get_prop result ''data'') result) (snd config)
                 (Some (fst config)) cm1
          else cm1)"
  by (cases r) (simp_all add: cachedCall_fetch_def Let_def)

lemma cachedCall_fetch_fallback:
  "fetcher cm = (Inl err, cm1) \<Longrightarrow>
   cachedCall_fetch now ''network-first'' ck config fetcher cm =
     (case get now ck (snd config) cm1 of
        (cached, cm2) \<Rightarrow>
          if cached \<noteq> JNull then (Inr (spread_source cached ''cache-fallback''), 1, cm2)
          else (Inl err, 1, cm2))"
  by (simp add: cachedCall_fetch_def)

lemma cachedCall_skipCache:
  "skipCache opts \<Longrightarrow> fetcher cm = (r, cm1) \<Longrightarrow>
   cachedCall t1 t2 cacheConfig endpoint fetcher opts cm = (r, 1, cm1)"
  by (simp add: cachedCall_def Let_def)

lemma cachedCall_not_cache_first:
  "\<not> skipCache opts \<Longrightarrow> strategy opts = Some strat \<Longrightarrow> strat \<noteq> ''cache-first'' \<Longrightarrow>
   cachedCall t1 t2 cacheConfig endpoint fetcher opts cm =
     cachedCall_fetch t2 strat (cacheKeyOf endpoint opts)
       (getCacheConfig cacheConfig endpoint) fetcher cm"
  by (simp add: cachedCall_def Let_def)

lemma cachedCall_cache_first:
  "\<not> skipCache opts \<Longrightarrow> strategy opts = None \<or> strategy opts = Some ''cache-first'' \<Longrightarrow>
   cachedCall t1 t2 cacheConfig endpoint fetcher opts cm =
     (case get t1 (cacheKeyOf endpoint opts) (snd (getCacheConfig cacheConfig endpoint)) cm of
        (cached, cm1) \<Rightarrow>
          if cached \<noteq> JNull then (Inr (spread_source cached ''cache''), 0, cm1)
          else cachedCall_fetch t2 ''cache-first'' (cacheKeyOf endpoint opts)
                 (getCacheConfig cacheConfig endpoint) fetcher cm1)"
  by (auto simp: cachedCall_def Let_def split: prod.splits)

text \<open>A cache-first call whose \<open>get\<close> returns \<open>null\<close> applies the fetcher to the cache
  that the \<open>get\<close> left, returns or throws what the fetcher does, and writes a result
  that is not failure-shaped through.\<close>

lemma cachedCall_cache_first_null:
  assumes "\<not> skipCache opts" and "strategy opts = None \<or> strategy opts = Some ''cache-first''"
    and "get t1 (cacheKeyOf endpoint opts) (snd (getCacheConfig cacheConfig endpoint)) cm = (JNull, cm0)"
    and "fetcher cm0 = (r, cm1)"
  shows "cachedCall t1 t2 cacheConfig endpoint fetcher opts cm =
     (r, 1,
      case r of
        Inl err \<Rightarrow> cm1
      | Inr result \<Rightarrow>
          if truthy (get_prop result ''success'') \<or> \<not> truthy (get_prop result ''error'')
          then set_cache t2 (cacheKeyOf endpoint opts) (js_or (get_prop result ''data'') result)
                 (snd (getCacheConfig cacheConfig endpoint))
                 (Some (fst (getCacheConfig cacheConfig endpoint))) cm1
          else cm1)"
  using cachedCall_cache_first [OF assms(1,2), of t1 t2 cacheConfig endpoint fetcher cm]
    cachedCall_fetch_result [of fetcher cm0 r cm1 "''cache-first''" t2 "cacheKeyOf endpoint opts"
      "getCacheConfig cacheConfig endpoint"] assms(3,4)
  by simp

subsection \<open>The strategy cache-only\<close>

text \<open>
  C1. \<open>cachedCall\<close> has no branch for the strategy \<open>cache-only\<close>: the strategy is not
  \<open>cache-first\<close>, so the call does not read the cache and goes to the \<open>try\<close> block,
  which invokes the fetcher, once, in every case. On an empty cache the call returns
  what the fetcher resolves to and writes it through, or throws what the fetcher
  throws, and no cache-miss error exists; on a warm cache it returns the fetcher's
  value, not the stored one.
\<close>

theorem cache_only_invokes_fetcher:
  "fst (snd (cachedCall t1 t2 cacheConfig endpoint fetcher (opts\<lparr>strategy := Some ''cache-only''\<rparr>) cm)) = 1
   \<and> cachedCall 1 2 CACHE_CONFIG ''/lessons'' (resolving (JStr ''fresh''))
         \<lparr>strategy = Some ''cache-only'', cacheKey = None, skipCache = False\<rparr> newCacheManager
       = (Inr (JStr ''fresh''), 1,
          set_cache 2 ''/lessons'' (JStr ''fresh'') ''lessons'' (Some 300000) newCacheManager)
   \<and> cachedCall 1 2 CACHE_CONFIG ''/lessons'' (throwing (Thrown (JStr ''offline'')))
         \<lparr>strategy = Some ''cache-only'', cacheKey = None, skipCache = False\<rparr> newCacheManager
       = (Inl (Thrown (JStr ''offline'')), 1, newCacheManager)
   \<and> fst (get 1 ''/lessons'' ''lessons''
            (set_cache 0 ''/lessons'' (JStr ''stored'') ''lessons'' None newCacheManager))
       = JStr ''stored''
   \<and> fst (cachedCall 1 2 CACHE_CONFIG ''/lessons'' (resolving (JStr ''fresh''))
            \<lparr>strategy = Some ''cache-only'', cacheKey = None, skipCache = False\<rparr>
            (set_cache 0 ''/lessons'' (JStr ''stored'') ''lessons'' None newCacheManager))
       = Inr (JStr ''fresh'')"
proof (intro conjI)
  show "fst (snd (cachedCall t1 t2 cacheConfig endpoint fetcher (opts\<lparr>strategy := Some ''cache-only''\<rparr>) cm)) = 1"
    by (simp add: cachedCall_def Let_def cachedCall_fetch_calls split: prod.splits)
qed (simp_all add: cachedCall_def cachedCall_fetch_def cacheKeyOf_def Let_def getCacheConfig_def CACHE_CONFIG_def
      resolving_def throwing_def js_or_def get_def set_cache_def newCacheManager_def
      newCacheEntry_def buildKey_def isValid_def)

subsection \<open>A cached null\<close>

text \<open>
  C10. \<open>set\<close> stores the value \<open>null\<close> like any other value. While the entry is valid,
  \<open>get\<close> counts a hit and records the access (access count plus one, last access time
  \<open>now\<close>), and returns \<open>null\<close>, which is also what it returns on a miss. The cache-first
  check \<open>cached !== null\<close> of \<open>cachedCall\<close> therefore takes a valid cached \<open>null\<close> for a
  miss: every such call applies the fetcher, once, to the cache that the \<open>get\<close> left,
  and returns or throws what the fetcher does. When the fetcher throws or its result is
  failure-shaped, the cache is as the fetcher left it; otherwise the result is written
  over the cached \<open>null\<close>.
\<close>

theorem cached_null_indistinguishable:
  "(\<exists>e. map_of (store (set_cache t0 k JNull ns t cm0)) (buildKey k ns) = Some e
        \<and> data e = JNull \<and> timestamp e = t0 \<and> accessCount e = 0)
   \<and> (map_of (store cm) (buildKey k ns) = Some e \<longrightarrow> data e = JNull \<longrightarrow>
       now - timestamp e < ttl e \<longrightarrow>
        get now k ns cm =
          (JNull,
           cm\<lparr>store := Map_set (buildKey k ns)
                            (e\<lparr>accessCount := accessCount e + 1, lastAccessTime := now\<rparr>) (store cm),
              stats := (stats cm)\<lparr>hits := hits (stats cm) + 1\<rparr>\<rparr>)
        \<and> (\<not> skipCache opts \<longrightarrow> strategy opts = None \<or> strategy opts = Some ''cache-first'' \<longrightarrow>
             cacheKeyOf endpoint opts = k \<longrightarrow>
             snd (getCacheConfig cacheConfig endpoint) = ns \<longrightarrow>
             (\<forall>r cm1.
                fetcher
                  (cm\<lparr>store := Map_set (buildKey k ns)
                            (e\<lparr>accessCount := accessCount e + 1, lastAccessTime := now\<rparr>) (store cm),
                      stats := (stats cm)\<lparr>hits := hits (stats cm) + 1\<rparr>\<rparr>) = (r, cm1) \<longrightarrow>
                fst (cachedCall now t2 cacheConfig endpoint fetcher opts cm) = r
                \<and> fst (snd (cachedCall now t2 cacheConfig endpoint fetcher opts cm)) = 1
                \<and> (case r of
                      Inl err \<Rightarrow>
                        snd (snd (cachedCall now t2 cacheConfig endpoint fetcher opts cm)) = cm1
                    | Inr result \<Rightarrow>
                        if truthy (get_prop result ''success'') \<or> \<not> truthy (get_prop result ''error'')
                        then \<exists>e'. map_of (store (snd (snd
                                      (cachedCall now t2 cacheConfig endpoint fetcher opts cm))))
                                    (buildKey k ns) = Some e'
                                \<and> data e' = js_or (get_prop result ''data'') result
                                \<and> timestamp e' = t2 \<and> accessCount e' = 0
                        else snd (snd (cachedCall now t2 cacheConfig endpoint fetcher opts cm)) = cm1))))
   \<and> (map_of (store cm) (buildKey k ns) = None \<longrightarrow> fst (get now k ns cm) = JNull)"
proof (intro conjI impI allI)
  show "\<exists>e. map_of (store (set_cache t0 k JNull ns t cm0)) (buildKey k ns) = Some e
        \<and> data e = JNull \<and> timestamp e = t0 \<and> accessCount e = 0"
    by (simp add: store_set_cache newCacheEntry_def)
next
  assume "map_of (store cm) (buildKey k ns) = None"
  then show "fst (get now k ns cm) = JNull" by (simp add: get_miss)
next
  assume e: "map_of (store cm) (buildKey k ns) = Some e" and n: "data e = JNull"
    and v: "now - timestamp e < ttl e"
  let ?S = "cm\<lparr>store := Map_set (buildKey k ns)
                            (e\<lparr>accessCount := accessCount e + 1, lastAccessTime := now\<rparr>) (store cm),
              stats := (stats cm)\<lparr>hits := hits (stats cm) + 1\<rparr>\<rparr>"
  show g: "get now k ns cm = (JNull, ?S)"
    using get_hit [OF e v] n by (simp add: recordAccess_def)
  fix r cm1
  assume o: "\<not> skipCache opts" "strategy opts = None \<or> strategy opts = Some ''cache-first''"
    and ck: "cacheKeyOf endpoint opts = k"
    and c: "snd (getCacheConfig cacheConfig endpoint) = ns"
    and f: "fetcher ?S = (r, cm1)"
  have g': "get now (cacheKeyOf endpoint opts) (snd (getCacheConfig cacheConfig endpoint)) cm
      = (JNull, ?S)"
    by (simp only: ck c g)
  have call: "cachedCall now t2 cacheConfig endpoint fetcher opts cm =
                  (r, 1,
                   case r of
                     Inl err \<Rightarrow> cm1
                   | Inr result \<Rightarrow>
                       if truthy (get_prop result ''success'') \<or> \<not> truthy (get_prop result ''error'')
                       then set_cache t2 k (js_or (get_prop result ''data'') result) ns
                              (Some (fst (getCacheConfig cacheConfig endpoint))) cm1
                       else cm1)"
    using cachedCall_cache_first_null [where fetcher = fetcher and ?t2.0 = t2, OF o g' f]
    by (simp only: ck c)
  show "fst (cachedCall now t2 cacheConfig endpoint fetcher opts cm) = r"
    and "fst (snd (cachedCall now t2 cacheConfig endpoint fetcher opts cm)) = 1"
    by (simp_all only: call fst_conv snd_conv)
  show "case r of
          Inl err \<Rightarrow>
            snd (snd (cachedCall now t2 cacheConfig endpoint fetcher opts cm)) = cm1
        | Inr result \<Rightarrow>
            if truthy (get_prop result ''success'') \<or> \<not> truthy (get_prop result ''error'')
            then \<exists>e'. map_of (store (snd (snd
                          (cachedCall now t2 cacheConfig endpoint fetcher opts cm))))
                        (buildKey k ns) = Some e'
                    \<and> data e' = js_or (get_prop result ''data'') result
                    \<and> timestamp e' = t2 \<and> accessCount e' = 0
            else snd (snd (cachedCall now t2 cacheConfig endpoint fetcher opts cm)) = cm1"
    by (cases r) (simp_all add: call store_set_cache newCacheEntry_def)
qed

text \<open>A \<open>null\<close> cached for \<open>/health\<close>: the \<open>get\<close> is a hit that returns \<open>null\<close>, as the
  \<open>get\<close> on the empty cache does; the cache-first call returns what its fetcher
  resolves to and caches it, or throws what its fetcher throws.\<close>

theorem cached_null_indistinguishable_witness:
  "fst (get 1 ''/health'' ''health''
          (set_cache 0 ''/health'' JNull ''health'' None newCacheManager)) = JNull
   \<and> hits (stats (snd (get 1 ''/health'' ''health''
          (set_cache 0 ''/health'' JNull ''health'' None newCacheManager)))) = 1
   \<and> map_of (store (snd (get 1 ''/health'' ''health''
          (set_cache 0 ''/health'' JNull ''health'' None newCacheManager)))) ''health:/health''
       = Some \<lparr>data = JNull, ttl = 600000, timestamp = 0, key = ''health:/health'',
                accessCount = 1, lastAccessTime = 1\<rparr>
   \<and> fst (get 1 ''/health'' ''health'' newCacheManager) = JNull
   \<and> fst (cachedCall 1 2 CACHE_CONFIG ''/health'' (resolving (JStr ''up'')) defaultOptions
          (set_cache 0 ''/health'' JNull ''health'' None newCacheManager)) = Inr (JStr ''up'')
   \<and> fst (snd (cachedCall 1 2 CACHE_CONFIG ''/health'' (resolving (JStr ''up'')) defaultOptions
          (set_cache 0 ''/health'' JNull ''health'' None newCacheManager))) = 1
   \<and> map_option data (map_of (store (snd (snd
        (cachedCall 1 2 CACHE_CONFIG ''/health'' (resolving (JStr ''up'')) defaultOptions
          (set_cache 0 ''/health'' JNull ''health'' None newCacheManager))))) ''health:/health'')
       = Some (JStr ''up'')
   \<and> fst (cachedCall 1 2 CACHE_CONFIG ''/health'' (throwing (Thrown (JStr ''offline'')))
          defaultOptions (set_cache 0 ''/health'' JNull ''health'' None newCacheManager))
       = Inl (Thrown (JStr ''offline''))"
proof -
  let ?cm = "set_cache 0 ''/health'' JNull ''health'' None newCacheManager"
  let ?e = "\<lparr>data = JNull, ttl = 600000, timestamp = 0, key = ''health:/health'',
             accessCount = 0, lastAccessTime = 0\<rparr>"
  let ?S = "?cm\<lparr>store := Map_set (buildKey ''/health'' ''health'')
                            (?e\<lparr>accessCount := accessCount ?e + 1, lastAccessTime := 1\<rparr>) (store ?cm),
              stats := (stats ?cm)\<lparr>hits := hits (stats ?cm) + 1\<rparr>\<rparr>"
  have e: "map_of (store ?cm) (buildKey ''/health'' ''health'') = Some ?e"
    by (simp add: set_cache_def Let_def newCacheManager_def newCacheEntry_def buildKey_def)
  have n: "data ?e = JNull" and v: "1 - timestamp ?e < ttl ?e"
    by simp_all
  note hit = cached_null_indistinguishable [where k = "''/health''" and ns = "''health''"
      and cm = ?cm and e = ?e and now = 1 and opts = defaultOptions and endpoint = "''/health''"
      and cacheConfig = CACHE_CONFIG and ?t2.0 = 2 and fetcher = "resolving (JStr ''up'')",
      THEN conjunct2, THEN conjunct1, THEN mp, OF e, THEN mp, OF n, THEN mp, OF v]
  note hit_off = cached_null_indistinguishable [where k = "''/health''" and ns = "''health''"
      and cm = ?cm and e = ?e and now = 1 and opts = defaultOptions and endpoint = "''/health''"
      and cacheConfig = CACHE_CONFIG and ?t2.0 = 2
      and fetcher = "throwing (Thrown (JStr ''offline''))",
      THEN conjunct2, THEN conjunct1, THEN mp, OF e, THEN mp, OF n, THEN mp, OF v]
  have o: "\<not> skipCache defaultOptions"
    "strategy defaultOptions = None \<or> strategy defaultOptions = Some ''cache-first''"
    "cacheKeyOf ''/health'' defaultOptions = ''/health''"
    "snd (getCacheConfig CACHE_CONFIG ''/health'') = ''health''"
    by (simp_all add: defaultOptions_def cacheKeyOf_def getCacheConfig_def CACHE_CONFIG_def)
  have up: "resolving (JStr ''up'') ?S = (Inr (JStr ''up''), ?S)"
    by (simp add: resolving_def)
  have off: "throwing (Thrown (JStr ''offline'')) ?S = (Inl (Thrown (JStr ''offline'')), ?S)"
    by (simp add: throwing_def)
  note call_up = hit [THEN conjunct2, THEN mp, OF o(1), THEN mp, OF o(2), THEN mp, OF o(3),
      THEN mp, OF o(4), THEN spec, THEN spec, THEN mp, OF up]
  note call_off = hit_off [THEN conjunct2, THEN mp, OF o(1), THEN mp, OF o(2), THEN mp, OF o(3),
      THEN mp, OF o(4), THEN spec, THEN spec, THEN mp, OF off]
  have m: "map_of (store newCacheManager) (buildKey ''/health'' ''health'') = None"
    by (simp add: newCacheManager_def)
  note miss = cached_null_indistinguishable [where cm = newCacheManager and k = "''/health''"
      and ns = "''health''" and now = 1, THEN conjunct2, THEN conjunct2, THEN mp, OF m]
  have s: "hits (stats ?cm) = 0"
    by (simp add: set_cache_def Let_def newCacheManager_def)
  have k: "buildKey ''/health'' ''health'' = ''health:/health''"
    by (simp add: buildKey_def)
  have c1: "fst (get 1 ''/health'' ''health'' ?cm) = JNull"
    and c2: "hits (stats (snd (get 1 ''/health'' ''health'' ?cm))) = 1"
    and c3: "map_of (store (snd (get 1 ''/health'' ''health'' ?cm))) ''health:/health''
       = Some \<lparr>data = JNull, ttl = 600000, timestamp = 0, key = ''health:/health'',
                accessCount = 1, lastAccessTime = 1\<rparr>"
    by (simp_all add: hit [THEN conjunct1] s k map_of_Map_set)
  note c5 = call_up [THEN conjunct1]
  note c6 = call_up [THEN conjunct2, THEN conjunct1]
  have c7: "map_option data (map_of (store (snd (snd
        (cachedCall 1 2 CACHE_CONFIG ''/health'' (resolving (JStr ''up'')) defaultOptions ?cm))))
          ''health:/health'') = Some (JStr ''up'')"
    using call_up [THEN conjunct2, THEN conjunct2] by (auto simp: k js_or_def)
  note c8 = call_off [THEN conjunct1]
  show ?thesis
    by (intro conjI; fact c1 c2 c3 miss c5 c6 c7 c8)
qed

subsection \<open>The strategy network-first\<close>

lemma get_value:
  "fst (get now k ns cm) =
     (case map_of (store cm) (buildKey k ns) of
        None \<Rightarrow> JNull
      | Some e \<Rightarrow> if now - timestamp e < ttl e then data e else JNull)"
  by (simp add: get_def isValid_def Let_def split: option.splits)

text \<open>
  C7 (as stated, it fails). A valid entry whose value is \<open>null\<close> is not a fallback: the
  check \<open>cached !== null\<close> fails. With \<open>null\<close> cached for \<open>/progress\<close> and still valid,
  a network-first call whose fetcher throws re-throws the error. And the fallback
  result is \<open>{ ...cached, _source: 'cache-fallback' }\<close>, which is the cached value with
  the tag only if that value is an object: with the number 5 cached, the call returns
  an object that has the tag and nothing else.
\<close>

theorem network_first_null_entry_counterexample:
  "map_option data
      (map_of (store (set_cache 0 ''/progress'' JNull ''progress'' None newCacheManager))
         (buildKey ''/progress'' ''progress'')) = Some JNull
   \<and> map_option (isValid 2)
      (map_of (store (set_cache 0 ''/progress'' JNull ''progress'' None newCacheManager))
         (buildKey ''/progress'' ''progress'')) = Some True
   \<and> fst (cachedCall 1 2 CACHE_CONFIG ''/progress'' (throwing (Thrown (JStr ''offline'')))
            \<lparr>strategy = Some ''network-first'', cacheKey = None, skipCache = False\<rparr>
            (set_cache 0 ''/progress'' JNull ''progress'' None newCacheManager))
       = Inl (Thrown (JStr ''offline''))
   \<and> map_option data
      (map_of (store (set_cache 0 ''/progress'' (JNum 5) ''progress'' None newCacheManager))
         (buildKey ''/progress'' ''progress'')) = Some (JNum 5)
   \<and> map_option (isValid 2)
      (map_of (store (set_cache 0 ''/progress'' (JNum 5) ''progress'' None newCacheManager))
         (buildKey ''/progress'' ''progress'')) = Some True
   \<and> fst (cachedCall 1 2 CACHE_CONFIG ''/progress'' (throwing (Thrown (JStr ''offline'')))
            \<lparr>strategy = Some ''network-first'', cacheKey = None, skipCache = False\<rparr>
            (set_cache 0 ''/progress'' (JNum 5) ''progress'' None newCacheManager))
       = Inr (JObj [(''_source'', JStr ''cache-fallback'')])"
  by (simp add: cachedCall_def cachedCall_fetch_def cacheKeyOf_def Let_def getCacheConfig_def
      CACHE_CONFIG_def throwing_def get_def set_cache_def newCacheManager_def newCacheEntry_def
      buildKey_def isValid_def spread_source_def)

text \<open>
  C7 (amended). Under \<open>network-first\<close> (without \<open>skipCache\<close>) \<open>cachedCall\<close> invokes the
  fetcher first, on the cache as it is, and once. If the fetcher throws, the call
  then reads the cache: it returns a fallback result iff an entry for the cache key is
  present, valid at that time and its value is not \<open>null\<close>, and it re-throws the
  fetcher's error iff there is no such entry. When the value of that entry is an
  object, the result is the cached value tagged as a fallback: its properties with
  \<open>_source: 'cache-fallback'\<close>. Under every other strategy, and with \<open>skipCache\<close>, a call
  whose invocation of the fetcher throws re-throws that error unchanged and leaves the
  cache as the fetcher left it.
\<close>

theorem network_first_fallback:
  "(\<not> skipCache opts \<longrightarrow> strategy opts = Some ''network-first'' \<longrightarrow> fetcher cm = (Inl err, cm1) \<longrightarrow>
      fst (snd (cachedCall t1 t2 cacheConfig endpoint fetcher opts cm)) = 1
      \<and> snd (snd (cachedCall t1 t2 cacheConfig endpoint fetcher opts cm))
          = snd (get t2 (cacheKeyOf endpoint opts) (snd (getCacheConfig cacheConfig endpoint)) cm1)
      \<and> ((\<exists>v. fst (cachedCall t1 t2 cacheConfig endpoint fetcher opts cm) = Inr v)
           = (\<exists>e. map_of (store cm1)
                     (buildKey (cacheKeyOf endpoint opts) (snd (getCacheConfig cacheConfig endpoint)))
                     = Some e
                  \<and> t2 - timestamp e < ttl e \<and> data e \<noteq> JNull))
      \<and> ((fst (cachedCall t1 t2 cacheConfig endpoint fetcher opts cm) = Inl err)
           = (\<not> (\<exists>e. map_of (store cm1)
                     (buildKey (cacheKeyOf endpoint opts) (snd (getCacheConfig cacheConfig endpoint)))
                     = Some e
                  \<and> t2 - timestamp e < ttl e \<and> data e \<noteq> JNull)))
      \<and> (\<forall>e ps. map_of (store cm1)
                     (buildKey (cacheKeyOf endpoint opts) (snd (getCacheConfig cacheConfig endpoint)))
                     = Some e \<longrightarrow>
                 t2 - timestamp e < ttl e \<longrightarrow> data e = JObj ps \<longrightarrow>
                 fst (cachedCall t1 t2 cacheConfig endpoint fetcher opts cm)
                   = Inr (JObj (Map_set ''_source'' (JStr ''cache-fallback'') ps))))
   \<and> (skipCache opts \<longrightarrow> fetcher cm = (Inl err, cm1) \<longrightarrow>
        cachedCall t1 t2 cacheConfig endpoint fetcher opts cm = (Inl err, 1, cm1))
   \<and> (\<not> skipCache opts \<longrightarrow> strategy opts = Some s \<longrightarrow> s \<noteq> ''cache-first'' \<longrightarrow>
       s \<noteq> ''network-first'' \<longrightarrow> fetcher cm = (Inl err, cm1) \<longrightarrow>
        cachedCall t1 t2 cacheConfig endpoint fetcher opts cm = (Inl err, 1, cm1))
   \<and> (\<not> skipCache opts \<longrightarrow> strategy opts = None \<or> strategy opts = Some ''cache-first'' \<longrightarrow>
       get t1 (cacheKeyOf endpoint opts) (snd (getCacheConfig cacheConfig endpoint)) cm = (JNull, cm0) \<longrightarrow>
       fetcher cm0 = (Inl err, cm1) \<longrightarrow>
        cachedCall t1 t2 cacheConfig endpoint fetcher opts cm = (Inl err, 1, cm1))"
proof (intro conjI impI allI)
  assume "skipCache opts" "fetcher cm = (Inl err, cm1)"
  then show "cachedCall t1 t2 cacheConfig endpoint fetcher opts cm = (Inl err, 1, cm1)"
    by (rule cachedCall_skipCache)
next
  assume o: "\<not> skipCache opts" "strategy opts = Some s" "s \<noteq> ''cache-first''"
    and n: "s \<noteq> ''network-first''" and f: "fetcher cm = (Inl err, cm1)"
  show "cachedCall t1 t2 cacheConfig endpoint fetcher opts cm = (Inl err, 1, cm1)"
    using cachedCall_not_cache_first [OF o, of t1 t2 cacheConfig endpoint fetcher cm]
      cachedCall_fetch_result [of fetcher cm "Inl err" cm1 s, OF f n]
    by simp
next
  assume o: "\<not> skipCache opts" "strategy opts = None \<or> strategy opts = Some ''cache-first''"
    and g: "get t1 (cacheKeyOf endpoint opts) (snd (getCacheConfig cacheConfig endpoint)) cm = (JNull, cm0)"
    and f: "fetcher cm0 = (Inl err, cm1)"
  show "cachedCall t1 t2 cacheConfig endpoint fetcher opts cm = (Inl err, 1, cm1)"
    using cachedCall_cache_first_null [where fetcher = fetcher and ?t2.0 = t2, OF o g f] by simp
next
  assume o: "\<not> skipCache opts" "strategy opts = Some ''network-first''"
    and f: "fetcher cm = (Inl err, cm1)"
  let ?ck = "cacheKeyOf endpoint opts"
  let ?ns = "snd (getCacheConfig cacheConfig endpoint)"
  let ?P = "\<exists>e. map_of (store cm1) (buildKey ?ck ?ns) = Some e
                  \<and> t2 - timestamp e < ttl e \<and> data e \<noteq> JNull"
  have c: "cachedCall t1 t2 cacheConfig endpoint fetcher opts cm =
      (if fst (get t2 ?ck ?ns cm1) \<noteq> JNull
       then (Inr (spread_source (fst (get t2 ?ck ?ns cm1)) ''cache-fallback''), 1,
             snd (get t2 ?ck ?ns cm1))
       else (Inl err, 1, snd (get t2 ?ck ?ns cm1)))"
    using cachedCall_not_cache_first [OF o, of t1 t2 cacheConfig endpoint fetcher cm]
      cachedCall_fetch_fallback [of fetcher cm err cm1] f
    by (simp add: case_prod_unfold)
  have p: "?P = (fst (get t2 ?ck ?ns cm1) \<noteq> JNull)"
    by (auto simp: get_value split: option.splits)
  show "fst (snd (cachedCall t1 t2 cacheConfig endpoint fetcher opts cm)) = 1"
    by (simp add: c)
  show "snd (snd (cachedCall t1 t2 cacheConfig endpoint fetcher opts cm)) = snd (get t2 ?ck ?ns cm1)"
    by (simp add: c)
  show "(\<exists>v. fst (cachedCall t1 t2 cacheConfig endpoint fetcher opts cm) = Inr v) = ?P"
    unfolding p by (simp add: c)
  show "(fst (cachedCall t1 t2 cacheConfig endpoint fetcher opts cm) = Inl err) = (\<not> ?P)"
    unfolding p by (simp add: c)
  fix e ps
  assume "map_of (store cm1) (buildKey ?ck ?ns) = Some e" "t2 - timestamp e < ttl e"
    "data e = JObj ps"
  then have "fst (get t2 ?ck ?ns cm1) = JObj ps"
    by (simp add: get_value)
  then show "fst (cachedCall t1 t2 cacheConfig endpoint fetcher opts cm)
                   = Inr (JObj (Map_set ''_source'' (JStr ''cache-fallback'') ps))"
    by (simp add: c spread_source_def)
qed

text \<open>The progress cached as an object: a network-first call whose fetcher throws
  returns the object with the tag; on the empty cache it re-throws; and a cache-first
  call on the empty cache re-throws too.\<close>

theorem network_first_fallback_witness:
  "fst (cachedCall 1 2 CACHE_CONFIG ''/progress'' (throwing (Thrown (JStr ''offline'')))
      \<lparr>strategy = Some ''network-first'', cacheKey = None, skipCache = False\<rparr>
      (set_cache 0 ''/progress'' (JObj [(''level'', JNum 3)]) ''progress'' None newCacheManager))
     = Inr (JObj [(''level'', JNum 3), (''_source'', JStr ''cache-fallback'')])
   \<and> fst (cachedCall 1 2 CACHE_CONFIG ''/progress'' (throwing (Thrown (JStr ''offline'')))
      \<lparr>strategy = Some ''network-first'', cacheKey = None, skipCache = False\<rparr> newCacheManager)
     = Inl (Thrown (JStr ''offline''))
   \<and> fst (cachedCall 1 2 CACHE_CONFIG ''/progress'' (throwing (Thrown (JStr ''offline'')))
      \<lparr>strategy = Some ''cache-first'', cacheKey = None, skipCache = False\<rparr> newCacheManager)
     = Inl (Thrown (JStr ''offline''))
   \<and> fst (cachedCall 1 2 CACHE_CONFIG ''/progress'' (throwing (Thrown (JStr ''offline'')))
      \<lparr>strategy = Some ''network-first'', cacheKey = None, skipCache = True\<rparr>
      (set_cache 0 ''/progress'' (JObj [(''level'', JNum 3)]) ''progress'' None newCacheManager))
     = Inl (Thrown (JStr ''offline''))"
proof -
  let ?cm = "set_cache 0 ''/progress'' (JObj [(''level'', JNum 3)]) ''progress'' None newCacheManager"
  let ?err = "Thrown (JStr ''offline'')"
  let ?nf = "\<lparr>strategy = Some ''network-first'', cacheKey = None, skipCache = False\<rparr>"
  let ?cf = "\<lparr>strategy = Some ''cache-first'', cacheKey = None, skipCache = False\<rparr>"
  let ?sk = "\<lparr>strategy = Some ''network-first'', cacheKey = None, skipCache = True\<rparr>"
  let ?e = "\<lparr>data = JObj [(''level'', JNum 3)], ttl = 180000, timestamp = 0,
             key = ''progress:/progress'', accessCount = 0, lastAccessTime = 0\<rparr>"
  let ?key = "buildKey (cacheKeyOf ''/progress'' ?nf) (snd (getCacheConfig CACHE_CONFIG ''/progress''))"
  have o: "\<not> skipCache ?nf" "strategy ?nf = Some ''network-first''"
    by simp_all
  have f: "throwing ?err c = (Inl ?err, c)" for c
    by (simp add: throwing_def)
  have k: "?key = ''progress:/progress''"
    by (simp add: buildKey_def cacheKeyOf_def getCacheConfig_def CACHE_CONFIG_def)
  have e: "map_of (store ?cm) ?key = Some ?e"
    unfolding k
    by (simp add: set_cache_def Let_def newCacheManager_def newCacheEntry_def buildKey_def)
  have v: "2 - timestamp ?e < ttl ?e" and d: "data ?e = JObj [(''level'', JNum 3)]"
    by simp_all
  note nf = network_first_fallback [where opts = ?nf and fetcher = "throwing ?err" and err = ?err
      and ?t1.0 = 1 and ?t2.0 = 2 and cacheConfig = CACHE_CONFIG and endpoint = "''/progress''",
      THEN conjunct1, rule_format, OF o f]
  have warm: "fst (cachedCall 1 2 CACHE_CONFIG ''/progress'' (throwing ?err) ?nf ?cm)
      = Inr (JObj (Map_set ''_source'' (JStr ''cache-fallback'') [(''level'', JNum 3)]))"
    by (rule nf [of ?cm, THEN conjunct2, THEN conjunct2, THEN conjunct2, THEN conjunct2,
          rule_format, OF e v d])
  have none: "\<not> (\<exists>e. map_of (store newCacheManager) ?key = Some e
                  \<and> 2 - timestamp e < ttl e \<and> data e \<noteq> JNull)"
    by (simp add: newCacheManager_def)
  have cold: "fst (cachedCall 1 2 CACHE_CONFIG ''/progress'' (throwing ?err) ?nf newCacheManager)
      = Inl ?err"
    by (rule nf [of newCacheManager, THEN conjunct2, THEN conjunct2, THEN conjunct2,
          THEN conjunct1, THEN iffD2, OF none])
  have s: "\<not> skipCache ?cf" "strategy ?cf = None \<or> strategy ?cf = Some ''cache-first''"
    by simp_all
  have g: "get 1 (cacheKeyOf ''/progress'' ?cf) (snd (getCacheConfig CACHE_CONFIG ''/progress''))
      newCacheManager
      = (JNull, newCacheManager\<lparr>stats := (stats newCacheManager)
                                  \<lparr>misses := misses (stats newCacheManager) + 1\<rparr>\<rparr>)"
    by (rule get_miss) (simp add: newCacheManager_def)
  have cf: "cachedCall 1 2 CACHE_CONFIG ''/progress'' (throwing ?err) ?cf newCacheManager
      = (Inl ?err, 1, newCacheManager\<lparr>stats := (stats newCacheManager)
                                  \<lparr>misses := misses (stats newCacheManager) + 1\<rparr>\<rparr>)"
    by (rule network_first_fallback [where opts = ?cf and fetcher = "throwing ?err"
          and ?t1.0 = 1 and cacheConfig = CACHE_CONFIG and endpoint = "''/progress''"
          and cm = newCacheManager,
          THEN conjunct2, THEN conjunct2, THEN conjunct2, rule_format, OF s g f])
  have sk: "cachedCall 1 2 CACHE_CONFIG ''/progress'' (throwing ?err) ?sk ?cm = (Inl ?err, 1, ?cm)"
    by (rule network_first_fallback [where opts = ?sk and fetcher = "throwing ?err",
          THEN conjunct2, THEN conjunct1, rule_format, OF _ f]) simp
  show ?thesis
    by (simp add: warm cold cf sk)
qed

subsection \<open>Mutations\<close>














section \<open>Properties of the cache warming service\<close>

lemma toString_digit: "0 \<le> a \<Longrightarrow> a \<le> 9 \<Longrightarrow> toString a = [char_of (48 + nat a)]"
  by (simp add: toString_def)

lemma toString_digit_le:
  assumes "0 \<le> a" "a \<le> 9" "0 \<le> b" "b \<le> 9"
  shows "(toString a \<le> toString b) = (a \<le> b)"
proof -
  have "(char_of (48 + nat a) < (char_of (48 + nat b) :: char)) = (a < b)"
    using assms by (auto simp: less_char_def)
  then show ?thesis
    using assms by (auto simp: toString_digit list_le_def)
qed

lemma sorted_map_reflect:
  "sorted (map f xs) \<Longrightarrow> (\<forall>x \<in> set xs. \<forall>y \<in> set xs. f x \<le> f y \<longrightarrow> x \<le> y) \<Longrightarrow> sorted xs"
  by (induction xs) auto

text \<open>While every selected priority is a single digit, as the four priorities of
  \<open>WARMING_PRIORITY\<close> are, the order of the strings is the order of the numbers, and
  the tiers of a run are in ascending numeric order.\<close>

lemma sortedPriorities_digits:
  assumes "\<forall>p \<in> fst ` set groups. 0 \<le> p \<and> p \<le> 9"
  shows "sorted (sortedPriorities groups)"
proof -
  have "sorted (map toString (sort_key toString (map fst groups)))"
    by (rule sorted_sort_key)
  moreover have "\<forall>x \<in> set (sort_key toString (map fst groups)).
      \<forall>y \<in> set (sort_key toString (map fst groups)). toString x \<le> toString y \<longrightarrow> x \<le> y"
    using assms by (auto simp: toString_digit_le)
  ultimately show ?thesis
    unfolding sortedPriorities_def by (rule sorted_map_reflect)
qed

text \<open>
  C8. The tiers run in the order of \<open>Array.from(priorityGroups.keys()).sort()\<close>, and
  \<open>sort\<close> without a comparator orders numbers by their decimal strings. For the
  priorities 1 to 4 of \<open>WARMING_PRIORITY\<close> this is the numeric order. After
  \<open>registerTask("extra", fetcher, 10)\<close>, \<open>warmCache(10)\<close> runs the tier of priority 10
  before the tiers of priorities 2 and 3.
\<close>

theorem warmCache_tier_order:
  "warmCache False True 4 WARMING_TASKS
     = Some [(1, [''getUserProgress'']), (2, [''getLessons'']), (3, [''getUserStreak''])]
   \<and> warmCache False True 10 (registerTask ''extra'' (Some 10) None WARMING_TASKS)
     = Some [(1, [''getUserProgress'']), (10, [''extra'']), (2, [''getLessons'']),
             (3, [''getUserStreak''])]"
  by code_simp

end
